theory Spec2Isabelle
  imports Complex_Main "HOL-Library.Sublist" "HOL-Library.AList"
begin

section \<open>Data frames\<close>

text \<open>
  The service (\<^verbatim>\<open>src/services/data_service.py\<close>) keeps one polars data frame. A frame
  is modelled by its header and its rows: \<open>schema\<close> is the ordered mapping from column name
  to dtype (a dtype is identified with its printed name, what \<^verbatim>\<open>str(dtype)\<close> gives),
  and a cell is \<open>None\<close> for a null. The type \<open>'v\<close> of the non-null cell values is left open, so
  that nothing below depends on how integers, floats, booleans or text are represented.
\<close>

record 'v dataframe =
  schema :: "(string \<times> string) list"
  rows :: "'v option list list"

text \<open>\<^verbatim>\<open>df.columns\<close> and \<^verbatim>\<open>df.dtypes\<close>\<close>

definition columns :: "'v dataframe \<Rightarrow> string list" where
  "columns df = map fst (schema df)"

definition dtypes :: "'v dataframe \<Rightarrow> string list" where
  "dtypes df = map snd (schema df)"

text \<open>The invariants polars keeps: unique column names, rectangular rows, and no rows in a
  frame without columns.\<close>

definition wf_frame :: "'v dataframe \<Rightarrow> bool" where
  "wf_frame df \<longleftrightarrow>
     distinct (columns df) \<and>
     list_all (\<lambda>r. length r = length (columns df)) (rows df) \<and>
     (columns df = [] \<longrightarrow> rows df = [])"

text \<open>\<^verbatim>\<open>df.shape\<close>: (height, width).\<close>

definition shape :: "'v dataframe \<Rightarrow> nat \<times> nat" where
  "shape df = (length (rows df), length (columns df))"

text \<open>\<^verbatim>\<open>df.head(n)\<close>: the first \<open>n\<close> rows; for a negative \<open>n\<close>, all rows but the last \<open>|n|\<close>.\<close>

definition head :: "'v dataframe \<Rightarrow> int \<Rightarrow> 'v dataframe" where
  "head df n =
     (if 0 \<le> n then df\<lparr>rows := take (nat n) (rows df)\<rparr>
      else df\<lparr>rows := take (length (rows df) - nat (- n)) (rows df)\<rparr>)"

text \<open>\<^verbatim>\<open>df.to_dicts()\<close>: one dictionary per row, from column name to cell, in column order.\<close>

type_synonym 'v row_dict = "(string \<times> 'v option) list"

definition to_dict :: "string list \<Rightarrow> 'v option list \<Rightarrow> 'v row_dict" where
  "to_dict cols r = zip cols r"

definition to_dicts :: "'v dataframe \<Rightarrow> 'v row_dict list" where
  "to_dicts df = map (to_dict (columns df)) (rows df)"

text \<open>The cell of a row dictionary under a column name; a null cell, and a name that is not a
  key at all, both give \<open>None\<close>.\<close>

definition cell :: "'v row_dict \<Rightarrow> string \<Rightarrow> 'v option" where
  "cell d c = (case map_of d c of Some x \<Rightarrow> x | None \<Rightarrow> None)"

text \<open>
  \<^verbatim>\<open>pl.col(col).cast(pl.Utf8).str.contains(val, literal=True)\<close> on one cell: a null stays
  null through the cast and through \<open>contains\<close>; otherwise the value is rendered as text
  (\<open>utf8\<close>, the cast of polars, a parameter) and \<open>val\<close> is looked for as a contiguous
  substring. Strings are byte lists here; UTF-8 is self-synchronising, so a substring of
  code points is a substring of bytes and conversely.
\<close>

definition str_contains :: "('v \<Rightarrow> string) \<Rightarrow> string \<Rightarrow> 'v option \<Rightarrow> bool option" where
  "str_contains utf8 val x = (case x of None \<Rightarrow> None | Some v \<Rightarrow> Some (sublist val (utf8 v)))"

text \<open>\<^verbatim>\<open>df.filter(mask)\<close> keeps the rows whose mask is true; rows whose mask is false or null are
  dropped.\<close>

definition filter_rows :: "('v option list \<Rightarrow> bool option) \<Rightarrow> 'v dataframe \<Rightarrow> 'v dataframe" where
  "filter_rows keep df = df\<lparr>rows := filter (\<lambda>r. keep r = Some True) (rows df)\<rparr>"

section \<open>Errors\<close>

text \<open>The exceptions that occur. \<open>LibraryError\<close> stands for any exception raised inside polars,
  with its description.\<close>

datatype exn =
    ValueError string
  | KeyError string
  | AttributeError string
  | ZeroDivisionError
  | LibraryError string

text \<open>\<^verbatim>\<open>str(e)\<close>. For a \<open>KeyError\<close> it is the \<open>repr\<close> of the key, given here for keys without
  quotes, backslashes or control characters.\<close>

fun str_exn :: "exn \<Rightarrow> string" where
  "str_exn (ValueError m) = m"
| "str_exn (KeyError k) = [CHR 0x27] @ k @ [CHR 0x27]"
| "str_exn (AttributeError m) = m"
| "str_exn ZeroDivisionError = ''division by zero''"
| "str_exn (LibraryError m) = m"

section \<open>The data service: schema and query\<close>

datatype job_status = Pending | Running | Completed | Failed

record 'r job =
  status :: job_status
  created_at :: string
  completed_at :: "string option"
  result :: "'r option"
  error :: "string option"

text \<open>\<^verbatim>\<open>class DataService\<close>: \<open>self.data\<close> and \<open>self.jobs\<close>. The type \<open>'r\<close> is the type of a
  job's result.\<close>

record ('v, 'r) data_service =
  data :: "'v dataframe option"
  jobs :: "string \<rightharpoonup> 'r job"

text \<open>\<^verbatim>\<open>DataService.__init__\<close>\<close>

definition init_service :: "('v, 'r) data_service" where
  "init_service = \<lparr>data = None, jobs = Map.empty\<rparr>"

record 'v schema_info =
  schema_columns :: "string list"
  schema_dtypes :: "(string \<times> string) list"
  schema_shape :: "nat \<times> nat"
  sample_data :: "'v row_dict list"

text \<open>\<^verbatim>\<open>DataService.get_schema\<close>\<close>

definition get_schema :: "('v, 'r) data_service \<Rightarrow> exn + 'v schema_info" where
  "get_schema st =
     (case data st of
        None \<Rightarrow> Inl (ValueError ''No data loaded'')
      | Some df \<Rightarrow>
          Inr \<lparr>schema_columns = columns df,
               schema_dtypes = fold (\<lambda>(col, dtype) d. AList.update col dtype d)
                                 (zip (columns df) (dtypes df)) [],
               schema_shape = shape df,
               sample_data = to_dicts (head df 5)\<rparr>)"

text \<open>A filter is a dictionary with the two keys \<open>column\<close> and \<open>value\<close>.\<close>

record filter_item =
  filter_column :: string
  filter_value :: string

text \<open>The body of the loop of \<^verbatim>\<open>DataService.query_data\<close>, for one filter.\<close>

definition apply_filter :: "('v \<Rightarrow> string) \<Rightarrow> 'v dataframe \<Rightarrow> filter_item \<Rightarrow> 'v dataframe" where
  "apply_filter utf8 df f =
     (let col = filter_column f; val = filter_value f in
      if col \<in> set (columns df)
      then filter_rows (\<lambda>r. str_contains utf8 val (cell (to_dict (columns df) r) col)) df
      else df)"

fun apply_filters :: "('v \<Rightarrow> string) \<Rightarrow> 'v dataframe \<Rightarrow> filter_item list \<Rightarrow> 'v dataframe" where
  "apply_filters utf8 df [] = df"
| "apply_filters utf8 df (f # fs) = apply_filters utf8 (apply_filter utf8 df f) fs"

text \<open>\<^verbatim>\<open>DataService.query_data\<close>\<close>

definition query_data ::
  "('v \<Rightarrow> string) \<Rightarrow> ('v, 'r) data_service \<Rightarrow> filter_item list \<Rightarrow> int \<Rightarrow> exn + 'v row_dict list" where
  "query_data utf8 st filters limit =
     (case data st of
        None \<Rightarrow> Inl (ValueError ''No data loaded'')
      | Some df \<Rightarrow> Inr (to_dicts (head (apply_filters utf8 df filters) limit)))"

text \<open>What it means for a returned record to match a filter: the record has a non-null value
  under the filter's column, and the text of that value contains the filter's string.\<close>

definition matches :: "('v \<Rightarrow> string) \<Rightarrow> filter_item \<Rightarrow> 'v row_dict \<Rightarrow> bool" where
  "matches utf8 f d =
     (case cell d (filter_column f) of
        None \<Rightarrow> False
      | Some v \<Rightarrow> sublist (filter_value f) (utf8 v))"

text \<open>The records that a list of filters selects: those that match every filter whose column
  is one of \<open>cols\<close>.\<close>

definition selected :: "('v \<Rightarrow> string) \<Rightarrow> string list \<Rightarrow> filter_item list \<Rightarrow> 'v row_dict \<Rightarrow> bool" where
  "selected utf8 cols fs d \<longleftrightarrow> list_all (\<lambda>f. filter_column f \<in> set cols \<longrightarrow> matches utf8 f d) fs"


section \<open>Loading\<close>

text \<open>
  \<^verbatim>\<open>DataService.load_csv_async\<close>. The reader \<^verbatim>\<open>pl.read_csv\<close> is a parameter: from the path
  of a file to the frame read from it, or to the exception raised. An exception of the reader
  passes through the \<^verbatim>\<open>await\<close>, before \<open>self.data\<close> is assigned.
\<close>

definition load_csv_async ::
  "(string \<Rightarrow> exn + 'v dataframe) \<Rightarrow> ('v, 'r) data_service \<Rightarrow> string \<Rightarrow>
     ('v, 'r) data_service \<times> (exn + 'v dataframe)" where
  "load_csv_async read_csv st file_path =
     (case read_csv file_path of
        Inl e \<Rightarrow> (st, Inl e)
      | Inr df \<Rightarrow> (st\<lparr>data := Some df\<rparr>, Inr df))"

text \<open>
  \<^verbatim>\<open>HealthController.upload_csv\<close> (\<^verbatim>\<open>src/controllers/health_controller.py\<close>). The content of
  the upload is written to a temporary file, whose path \<open>tmp_path\<close> the system chooses, and that
  file is loaded; \<open>read_payload\<close> is the reader applied to a file that holds the given content.
  The response carries the shape of the frame that the load returned. An exception of the load
  becomes the response 500 with its description; failures of the file system itself (writing
  or removing the temporary file) are left out.
\<close>

record upload_response =
  message :: string
  filename :: string
  response_rows :: nat
  response_columns :: nat

datatype http_exception = HTTPException nat string

definition upload_csv ::
  "(string \<Rightarrow> exn + 'v dataframe) \<Rightarrow> ('v, 'r) data_service \<Rightarrow> string \<Rightarrow> string \<Rightarrow> string \<Rightarrow>
     ('v, 'r) data_service \<times> (http_exception + upload_response)" where
  "upload_csv read_payload st tmp_path name content =
     (if \<not> suffix ''.csv'' name then (st, Inl (HTTPException 400 ''Only CSV files are allowed''))
      else (case load_csv_async (\<lambda>file_path. read_payload content) st tmp_path of
              (st', Inl e) \<Rightarrow> (st', Inl (HTTPException 500 (''Upload failed: '' @ str_exn e)))
            | (st', Inr df) \<Rightarrow>
                (st', Inr \<lparr>message = ''File uploaded successfully'', filename = name,
                           response_rows = fst (shape df), response_columns = snd (shape df)\<rparr>)))"

subsection \<open>The parser of the payload\<close>

text \<open>
  Modelled from the spec: the parser of the uploaded payload. In the program it is
  \<^verbatim>\<open>pl.read_csv\<close>, which is library code and not under \<^verbatim>\<open>src/\<close>. The spec (4.1) says of \<open>load\<close>
  that it ``parses a delimited tabular payload into the Dataset representation'' and ``fails
  with \<open>ParseError\<close> if the payload is not valid tabular data (malformed row/column structure)'';
  of the Dataset (3) that it is ``an ordered sequence of named columns'', each typed and holding
  nullable row values, that ``all columns have equal row count'', and that ``column names are
  unique and order is significant (schema order = ingestion order)''. The payload is that of a
  \<^verbatim>\<open>.csv\<close> upload (6): records end at a line feed, fields are separated by commas, and a field may
  be enclosed in double quotes.

  The model below splits the payload into records of fields, takes the first record as the
  header, and refuses with a \<open>ParseError\<close> what is malformed. The typing of a column, from the
  fields of the column to its dtype and its cells, is left to a parameter, and may fail.
\<close>

text \<open>Modelled from the spec: a field of a record, with whether it was enclosed in quotes.\<close>

type_synonym csv_field = "bool \<times> string"

text \<open>Modelled from the spec: the states of the scan of a payload: at the start of a field, in
  a field without quotes, inside quotes, and just after a quote met inside quotes.\<close>

datatype scan_state = FieldStart | Unquoted | Quoted | QuoteSeen

text \<open>Modelled from the spec: the field that ends in state \<open>st\<close>, its text \<open>fld\<close> held reversed.\<close>

definition end_field :: "scan_state \<Rightarrow> string \<Rightarrow> csv_field" where
  "end_field st fld = (st = QuoteSeen, rev fld)"

text \<open>
  Modelled from the spec: the scan of a payload into records. \<open>fld\<close> is the text of the current
  field, \<open>row\<close> the fields of the current record and \<open>recs\<close> the records read, each reversed.
  Inside quotes every character but the quote is text, and two quotes are one quote of text.
  Outside quotes a comma ends a field, a line feed ends a record, and a carriage return is
  dropped before a line feed. Malformed, with \<open>None\<close> for a result: a quote inside a field that
  did not start with one, text after a closing quote, a carriage return not before a line feed,
  and quotes left open at the end.
\<close>

fun scan ::
  "scan_state \<Rightarrow> string \<Rightarrow> csv_field list \<Rightarrow> csv_field list list \<Rightarrow> string \<Rightarrow>
     csv_field list list option" where
  "scan st fld row recs [] =
     (if st = Quoted then None
      else if st = FieldStart \<and> row = [] then Some (rev recs)
      else Some (rev (rev (end_field st fld # row) # recs)))"
| "scan st fld row recs (c # cs) =
     (if st = Quoted then
        (if c = CHR 0x22 then scan QuoteSeen fld row recs cs
         else scan Quoted (c # fld) row recs cs)
      else if c = CHR 0x22 then
        (if st = FieldStart then scan Quoted [] row recs cs
         else if st = QuoteSeen then scan Quoted (c # fld) row recs cs
         else None)
      else if c = CHR 0x2C then scan FieldStart [] (end_field st fld # row) recs cs
      else if c = CHR 0x0A then scan FieldStart [] [] (rev (end_field st fld # row) # recs) cs
      else if c = CHR 0x0D then (if take 1 cs = [CHR 0x0A] then scan st fld row recs cs else None)
      else if st = QuoteSeen then None
      else scan Unquoted (c # fld) row recs cs)"

text \<open>Modelled from the spec: the records of a payload.\<close>

definition csv_records :: "string \<Rightarrow> csv_field list list option" where
  "csv_records payload = scan FieldStart [] [] [] payload"

text \<open>Modelled from the spec: a byte order mark at the start of the payload is not part of the
  first column name.\<close>

definition strip_bom :: "string \<Rightarrow> string" where
  "strip_bom payload =
     (if take 3 payload = [CHR 0xEF, CHR 0xBB, CHR 0xBF] then drop 3 payload else payload)"

text \<open>Modelled from the spec: the payload is text, that is, well-formed UTF-8. A continuation
  byte of a sequence of several bytes.\<close>

definition continuation :: "char \<Rightarrow> bool" where
  "continuation c \<longleftrightarrow> 0x80 \<le> (of_char c :: nat) \<and> (of_char c :: nat) \<le> 0xBF"

text \<open>Modelled from the spec: well-formed UTF-8, sequence by sequence; overlong forms,
  surrogates and code points beyond U+10FFFF are not well-formed.\<close>

fun utf8_valid :: "string \<Rightarrow> bool" where
  "utf8_valid [] = True"
| "utf8_valid (a # s) =
     (let n = (of_char a :: nat) in
      if n < 0x80 then utf8_valid s
      else if 0xC2 \<le> n \<and> n \<le> 0xDF then
        (case s of
           b # s1 \<Rightarrow> continuation b \<and> utf8_valid s1
         | _ \<Rightarrow> False)
      else if 0xE0 \<le> n \<and> n \<le> 0xEF then
        (case s of
           b # c # s2 \<Rightarrow>
             continuation b \<and> continuation c \<and>
             (n = 0xE0 \<longrightarrow> 0xA0 \<le> (of_char b :: nat)) \<and>
             (n = 0xED \<longrightarrow> (of_char b :: nat) \<le> 0x9F) \<and> utf8_valid s2
         | _ \<Rightarrow> False)
      else if 0xF0 \<le> n \<and> n \<le> 0xF4 then
        (case s of
           b # c # d # s3 \<Rightarrow>
             continuation b \<and> continuation c \<and> continuation d \<and>
             (n = 0xF0 \<longrightarrow> 0x90 \<le> (of_char b :: nat)) \<and>
             (n = 0xF4 \<longrightarrow> (of_char b :: nat) \<le> 0x8F) \<and> utf8_valid s3
         | _ \<Rightarrow> False)
      else False)"

text \<open>Modelled from the spec: the columns typed one after the other, by the parameter \<open>typing\<close>;
  the first failure is the failure of the whole.\<close>

fun type_columns ::
  "(csv_field list \<Rightarrow> exn + string \<times> 'v option list) \<Rightarrow> csv_field list list \<Rightarrow>
     exn + (string \<times> 'v option list) list" where
  "type_columns typing [] = Inr []"
| "type_columns typing (col # cols) =
     (case typing col of
        Inl e \<Rightarrow> Inl e
      | Inr t \<Rightarrow>
          (case type_columns typing cols of
             Inl e \<Rightarrow> Inl e
           | Inr ts \<Rightarrow> Inr (t # ts)))"

text \<open>
  Modelled from the spec: the parser. It fails with a \<open>ParseError\<close> for a payload that is not
  text, whose quoting or line ends are malformed, that has no header, whose header has an
  empty or a repeated name, that has a blank line, or that has a row with more or fewer fields
  than the header. It fails with the failure of the typing of a column, and when a typed column
  has not one cell per row. Otherwise the frame has the names of the header as its columns, in
  their order, and one row for each record after the header.
\<close>

definition parse_tabular ::
  "(csv_field list \<Rightarrow> exn + string \<times> 'v option list) \<Rightarrow> string \<Rightarrow> exn + 'v dataframe" where
  "parse_tabular typing payload =
     (if \<not> utf8_valid payload then Inl (LibraryError ''ParseError: the payload is not UTF-8 text'')
      else
        (case csv_records (strip_bom payload) of
           None \<Rightarrow> Inl (LibraryError ''ParseError: malformed quoting or line end'')
         | Some [] \<Rightarrow> Inl (LibraryError ''ParseError: empty payload'')
         | Some (header # body) \<Rightarrow>
             (let names = map snd header in
              if [] \<in> set names \<or> \<not> distinct names \<or>
                 list_ex (\<lambda>r. r = [(False, [])] \<or> length r \<noteq> length header) body
              then Inl (LibraryError ''ParseError: malformed row/column structure'')
              else
                (case type_columns typing
                        (map (\<lambda>j. map (\<lambda>r. r ! j) body) [0..<length header]) of
                   Inl e \<Rightarrow> Inl e
                 | Inr typed \<Rightarrow>
                     if list_ex (\<lambda>(dtype, cells). length cells \<noteq> length body) typed
                     then Inl (LibraryError ''ShapeError: columns of unequal height'')
                     else Inr \<lparr>schema = zip names (map fst typed),
                               rows = map (\<lambda>i. map (\<lambda>(dtype, cells). cells ! i) typed)
                                        [0..<length body]\<rparr>))))"

section \<open>Summaries\<close>

text \<open>\<^verbatim>\<open>self.data.select(pl.col(col)).to_series()\<close>: the cells of one column, top to bottom.\<close>

definition column_values :: "'v dataframe \<Rightarrow> string \<Rightarrow> 'v option list" where
  "column_values df col = map (\<lambda>r. cell (to_dict (columns df) r) col) (rows df)"

text \<open>\<^verbatim>\<open>df.select(cols)\<close>, for a list of column names.\<close>

definition select :: "string list \<Rightarrow> 'v dataframe \<Rightarrow> exn + 'v dataframe" where
  "select cols df =
     (if \<not> distinct cols then Inl (LibraryError ''DuplicateError'')
      else if \<not> set cols \<subseteq> set (columns df) then Inl (LibraryError ''ColumnNotFoundError'')
      else Inr \<lparr>schema = map (\<lambda>c. (c, case map_of (schema df) c of Some t \<Rightarrow> t | None \<Rightarrow> [])) cols,
                rows = map (\<lambda>r. map (cell (to_dict (columns df) r)) cols) (rows df)\<rparr>)"

text \<open>The basic statistics: the marker \<^verbatim>\<open>{"message": "No numeric columns found"}\<close>, or the
  records of the table that \<^verbatim>\<open>describe()\<close> gives. Its cells have a type \<open>'s\<close> of their own.\<close>

datatype 's basic_stats = NoNumericColumns | Statistics "'s row_dict list"

text \<open>\<^verbatim>\<open>DataService._get_basic_statistics\<close>; \<^verbatim>\<open>DataFrame.describe\<close> is a parameter.\<close>

definition get_basic_statistics ::
  "('v dataframe \<Rightarrow> exn + 's dataframe) \<Rightarrow> 'v dataframe \<Rightarrow> exn + 's basic_stats" where
  "get_basic_statistics describe df =
     (let numeric_cols =
            map fst (filter (\<lambda>(col, dtype). dtype \<in> set [''Float64'', ''Float32'', ''Int64'', ''Int32''])
                       (zip (columns df) (dtypes df)))
      in if numeric_cols = [] then Inr NoNumericColumns
         else (case select numeric_cols df of
                 Inl e \<Rightarrow> Inl e
               | Inr sub \<Rightarrow>
                   (case describe sub of
                      Inl e \<Rightarrow> Inl e
                    | Inr stats \<Rightarrow> Inr (Statistics (to_dicts stats)))))"

text \<open>Python's \<open>/\<close> on two integers raises on a zero divisor. The quotient is kept exact; the
  program holds the double nearest to it.\<close>

definition py_truediv :: "int \<Rightarrow> int \<Rightarrow> exn + rat" where
  "py_truediv a b = (if b = 0 then Inl ZeroDivisionError else Inr (of_int a / of_int b))"

record missing_info =
  null_count :: int
  null_percentage :: rat

text \<open>\<^verbatim>\<open>DataService._get_missing_values\<close>: the loop over the columns, with the dictionary
  \<open>missing\<close> built so far.\<close>

fun missing_loop ::
  "'v dataframe \<Rightarrow> string list \<Rightarrow> (string \<times> missing_info) list \<Rightarrow> exn + (string \<times> missing_info) list" where
  "missing_loop df [] missing = Inr missing"
| "missing_loop df (col # cols) missing =
     (let nulls = int (length (filter (\<lambda>x. x = None) (column_values df col))) in
      case py_truediv nulls (int (fst (shape df))) of
        Inl e \<Rightarrow> Inl e
      | Inr q \<Rightarrow>
          missing_loop df cols
            (AList.update col \<lparr>null_count = nulls, null_percentage = q * 100\<rparr> missing))"

definition get_missing_values :: "'v dataframe \<Rightarrow> exn + (string \<times> missing_info) list" where
  "get_missing_values df = missing_loop df (columns df) []"

text \<open>One entry of the distributions: the first rows of the table of value counts, each a value
  of the column with its count, or the marker
  \<^verbatim>\<open>{"error": "Could not compute distribution"}\<close>.\<close>

datatype 'v distribution = ValueCounts "('v option \<times> nat) list" | DistributionError

text \<open>\<^verbatim>\<open>DataService._get_distributions\<close>; \<^verbatim>\<open>Series.value_counts\<close> is a parameter, and an
  exception it raises is caught by the bare \<^verbatim>\<open>except\<close> of the loop body.\<close>

fun distributions_loop ::
  "('v option list \<Rightarrow> exn + ('v option \<times> nat) list) \<Rightarrow> 'v dataframe \<Rightarrow> string list \<Rightarrow>
     (string \<times> 'v distribution) list \<Rightarrow> (string \<times> 'v distribution) list" where
  "distributions_loop value_counts df [] distributions = distributions"
| "distributions_loop value_counts df (col # cols) distributions =
     distributions_loop value_counts df cols
       (AList.update col
          (case value_counts (column_values df col) of
             Inr counts \<Rightarrow> ValueCounts (take 10 counts)
           | Inl e \<Rightarrow> DistributionError)
          distributions)"

text \<open>The entry of one column, as the body of the loop computes it.\<close>

definition distribution_of ::
  "('v option list \<Rightarrow> exn + ('v option \<times> nat) list) \<Rightarrow> 'v dataframe \<Rightarrow> string \<Rightarrow> 'v distribution" where
  "distribution_of value_counts df col =
     (case value_counts (column_values df col) of
        Inr counts \<Rightarrow> ValueCounts (take 10 counts)
      | Inl e \<Rightarrow> DistributionError)"

definition get_distributions ::
  "('v option list \<Rightarrow> exn + ('v option \<times> nat) list) \<Rightarrow> 'v dataframe \<Rightarrow>
     (string \<times> 'v distribution) list" where
  "get_distributions value_counts df = distributions_loop value_counts df (take 5 (columns df)) []"

text \<open>
  What \<^verbatim>\<open>Series.value_counts()\<close> promises when it returns: one row for each distinct value of
  the series (a null is a value), with the number of its occurrences. The order of the rows is
  not fixed: the call in \<^verbatim>\<open>_get_distributions\<close> passes no \<^verbatim>\<open>sort\<close> argument.
\<close>

definition value_counts_ok :: "('v option list \<Rightarrow> exn + ('v option \<times> nat) list) \<Rightarrow> bool" where
  "value_counts_ok value_counts \<longleftrightarrow>
     (\<forall>xs counts. value_counts xs = Inr counts \<longrightarrow>
        distinct (map fst counts) \<and> set (map fst counts) = set xs \<and>
        (\<forall>(v, n) \<in> set counts. n = count_list xs v))"

text \<open>One such table: the values in the order of their first occurrence.\<close>

definition value_counts_first_seen :: "'v option list \<Rightarrow> exn + ('v option \<times> nat) list" where
  "value_counts_first_seen xs = Inr (map (\<lambda>v. (v, count_list xs v)) (rev (remdups (rev xs))))"

text \<open>An entry is the ten most frequent values when every value it leaves out occurs at most as
  often as every value it lists.\<close>

definition top_ten :: "'v option list \<Rightarrow> ('v option \<times> nat) list \<Rightarrow> bool" where
  "top_ten xs entry \<longleftrightarrow>
     length entry = min 10 (length (remdups xs)) \<and>
     distinct (map fst entry) \<and>
     list_all (\<lambda>(v, n). v \<in> set xs \<and> n = count_list xs v) entry \<and>
     list_all (\<lambda>w. w \<in> set (map fst entry) \<or> list_all (\<lambda>(v, n). count_list xs w \<le> n) entry)
       (remdups xs)"

record ('v, 's) summary =
  basic_statistics :: "'s basic_stats"
  missing_values :: "(string \<times> missing_info) list"
  distributions :: "(string \<times> 'v distribution) list"

text \<open>The three summaries of \<^verbatim>\<open>_run_summary_job\<close> (``Generate summaries''), in the order of the
  code, over \<open>self.data\<close>. With no frame, the first attribute access raises.\<close>

definition generate_summaries ::
  "('v dataframe \<Rightarrow> exn + 's dataframe) \<Rightarrow> ('v option list \<Rightarrow> exn + ('v option \<times> nat) list) \<Rightarrow>
     'v dataframe option \<Rightarrow> exn + ('v, 's) summary" where
  "generate_summaries describe value_counts d =
     (case d of
        None \<Rightarrow>
          Inl (AttributeError
                 ([CHR 0x27] @ ''NoneType'' @ [CHR 0x27] @ '' object has no attribute '' @
                  [CHR 0x27] @ ''columns'' @ [CHR 0x27]))
      | Some df \<Rightarrow>
          (case get_basic_statistics describe df of
             Inl e \<Rightarrow> Inl e
           | Inr basic \<Rightarrow>
               (case get_missing_values df of
                  Inl e \<Rightarrow> Inl e
                | Inr missing \<Rightarrow>
                    Inr \<lparr>basic_statistics = basic,
                         missing_values = missing,
                         distributions = get_distributions value_counts df\<rparr>)))"

section \<open>Jobs\<close>

text \<open>
  \<^verbatim>\<open>DataService.create_summary_job\<close>, with the identifier that \<^verbatim>\<open>uuid.uuid4()\<close> draws and the
  time that \<^verbatim>\<open>datetime.now()\<close> reads as arguments. The task that
  \<^verbatim>\<open>asyncio.create_task\<close> starts is an effect on the event loop, see \<open>step\<close> below.
\<close>

definition create_summary_job ::
  "string \<Rightarrow> string \<Rightarrow> ('v, 'r) data_service \<Rightarrow> ('v, 'r) data_service \<times> string" where
  "create_summary_job job_id now st =
     (st\<lparr>jobs := (jobs st)(job_id \<mapsto>
          \<lparr>status = Pending, created_at = now, completed_at = None, result = None, error = None\<rparr>)\<rparr>,
      job_id)"

text \<open>\<^verbatim>\<open>DataService.get_job_status\<close>\<close>

definition get_job_status :: "('v, 'r) data_service \<Rightarrow> string \<Rightarrow> exn + 'r job" where
  "get_job_status st job_id =
     (case jobs st job_id of
        None \<Rightarrow> Inl (ValueError ''Job not found'')
      | Some j \<Rightarrow> Inr j)"

text \<open>
  \<^verbatim>\<open>DataService._run_summary_job\<close> is a coroutine with one suspension point, the
  \<^verbatim>\<open>await asyncio.sleep(2)\<close>. It runs in two uninterrupted parts: from its start to the
  \<^verbatim>\<open>await\<close> (\<open>run_summary_job_begin\<close>) and from there to its end (\<open>run_summary_job_resume\<close>).
  A part ends suspended, returned, or with an exception that left the coroutine.
\<close>

datatype outcome = Suspended | Returned | Raised exn

text \<open>The \<^verbatim>\<open>except Exception as e\<close> block. The subscript \<^verbatim>\<open>self.jobs[job_id]\<close> is evaluated
  first, and raises for an identifier that is not in the registry.\<close>

definition on_exception ::
  "string \<Rightarrow> ('v, 'r) data_service \<Rightarrow> string \<Rightarrow> exn \<Rightarrow> ('v, 'r) data_service \<times> outcome" where
  "on_exception now st job_id e =
     (case jobs st job_id of
        None \<Rightarrow> (st, Raised (KeyError job_id))
      | Some j \<Rightarrow>
          (st\<lparr>jobs := (jobs st)(job_id \<mapsto>
               j\<lparr>status := Failed, completed_at := Some now, error := Some (str_exn e)\<rparr>)\<rparr>,
           Returned))"

definition run_summary_job_begin ::
  "string \<Rightarrow> ('v, 'r) data_service \<Rightarrow> string \<Rightarrow> ('v, 'r) data_service \<times> outcome" where
  "run_summary_job_begin now st job_id =
     (case jobs st job_id of
        None \<Rightarrow> on_exception now st job_id (KeyError job_id)
      | Some j \<Rightarrow>
          (let st1 = st\<lparr>jobs := (jobs st)(job_id \<mapsto> j\<lparr>status := Running\<rparr>)\<rparr> in
           if data st1 = None then on_exception now st1 job_id (ValueError ''No data loaded'')
           else (st1, Suspended)))"

definition run_summary_job_resume ::
  "('v dataframe \<Rightarrow> exn + 's dataframe) \<Rightarrow> ('v option list \<Rightarrow> exn + ('v option \<times> nat) list) \<Rightarrow>
     string \<Rightarrow> ('v, ('v, 's) summary) data_service \<Rightarrow> string \<Rightarrow>
     ('v, ('v, 's) summary) data_service \<times> outcome" where
  "run_summary_job_resume describe value_counts now st job_id =
     (case generate_summaries describe value_counts (data st) of
        Inl e \<Rightarrow> on_exception now st job_id e
      | Inr res \<Rightarrow>
          (case jobs st job_id of
             None \<Rightarrow> on_exception now st job_id (KeyError job_id)
           | Some j \<Rightarrow>
               (st\<lparr>jobs := (jobs st)(job_id \<mapsto>
                    j\<lparr>status := Completed, completed_at := Some now, result := Some res\<rparr>)\<rparr>,
                Returned)))"

text \<open>The coroutine run with nothing else in between, the second part at the time \<open>now'\<close>.\<close>

definition run_summary_job ::
  "('v dataframe \<Rightarrow> exn + 's dataframe) \<Rightarrow> ('v option list \<Rightarrow> exn + ('v option \<times> nat) list) \<Rightarrow>
     string \<Rightarrow> string \<Rightarrow> ('v, ('v, 's) summary) data_service \<Rightarrow> string \<Rightarrow>
     ('v, ('v, 's) summary) data_service \<times> outcome" where
  "run_summary_job describe value_counts now now' st job_id =
     (case run_summary_job_begin now st job_id of
        (st1, Suspended) \<Rightarrow> run_summary_job_resume describe value_counts now' st1 job_id
      | (st1, out) \<Rightarrow> (st1, out))"

section \<open>The service under the event loop\<close>

text \<open>
  The process: the service and the tasks of the event loop that have not ended, each at its
  start or suspended in its \<^verbatim>\<open>sleep\<close>. The events are the uninterrupted pieces of code that
  change the service: an upload that reaches \<^verbatim>\<open>load_csv_async\<close>, a call of
  \<^verbatim>\<open>create_summary_job\<close>, and the two parts of a task. \<^verbatim>\<open>uuid.uuid4()\<close> is taken to draw an
  identifier that the registry does not hold: \<open>Create\<close> with a registered identifier is not a
  step. Reading (\<open>get_schema\<close>, \<open>query_data\<close>, \<open>get_job_status\<close>) changes nothing and is not an
  event.
\<close>

datatype task_state = NotStarted | Sleeping

record ('v, 'r) process =
  service :: "('v, 'r) data_service"
  tasks :: "string \<rightharpoonup> task_state"

definition init_process :: "('v, 'r) process" where
  "init_process = \<lparr>service = init_service, tasks = Map.empty\<rparr>"

datatype event =
    Upload string
  | Create string string
  | Begin string string
  | Resume string string

text \<open>The part of a task just run leaves it suspended, or ends it.\<close>

definition after_part ::
  "('v, 'r) process \<Rightarrow> string \<Rightarrow> ('v, 'r) data_service \<times> outcome \<Rightarrow> ('v, 'r) process" where
  "after_part p job_id r =
     (case r of
        (st, Suspended) \<Rightarrow> \<lparr>service = st, tasks = (tasks p)(job_id \<mapsto> Sleeping)\<rparr>
      | (st, out) \<Rightarrow> \<lparr>service = st, tasks = (tasks p)(job_id := None)\<rparr>)"

fun step ::
  "(string \<Rightarrow> exn + 'v dataframe) \<Rightarrow> ('v dataframe \<Rightarrow> exn + 's dataframe) \<Rightarrow>
     ('v option list \<Rightarrow> exn + ('v option \<times> nat) list) \<Rightarrow>
     ('v, ('v, 's) summary) process \<Rightarrow> event \<Rightarrow> ('v, ('v, 's) summary) process option" where
  "step read_csv describe value_counts p (Upload file_path) =
     Some (p\<lparr>service := fst (load_csv_async read_csv (service p) file_path)\<rparr>)"
| "step read_csv describe value_counts p (Create job_id now) =
     (if jobs (service p) job_id \<noteq> None then None
      else Some \<lparr>service = fst (create_summary_job job_id now (service p)),
                 tasks = (tasks p)(job_id \<mapsto> NotStarted)\<rparr>)"
| "step read_csv describe value_counts p (Begin job_id now) =
     (if tasks p job_id = Some NotStarted
      then Some (after_part p job_id (run_summary_job_begin now (service p) job_id))
      else None)"
| "step read_csv describe value_counts p (Resume job_id now) =
     (if tasks p job_id = Some Sleeping
      then Some (after_part p job_id
                   (run_summary_job_resume describe value_counts now (service p) job_id))
      else None)"

fun run ::
  "(string \<Rightarrow> exn + 'v dataframe) \<Rightarrow> ('v dataframe \<Rightarrow> exn + 's dataframe) \<Rightarrow>
     ('v option list \<Rightarrow> exn + ('v option \<times> nat) list) \<Rightarrow>
     ('v, ('v, 's) summary) process \<Rightarrow> event list \<Rightarrow> ('v, ('v, 's) summary) process option" where
  "run read_csv describe value_counts p [] = Some p"
| "run read_csv describe value_counts p (ev # evs) =
     (case step read_csv describe value_counts p ev of
        None \<Rightarrow> None
      | Some p' \<Rightarrow> run read_csv describe value_counts p' evs)"

text \<open>The lifecycle of the specification: the moves a status may make.\<close>

fun lifecycle :: "job_status \<Rightarrow> job_status \<Rightarrow> bool" where
  "lifecycle Pending Running = True"
| "lifecycle Running Completed = True"
| "lifecycle Running Failed = True"
| "lifecycle s s' = False"

definition terminal :: "job_status \<Rightarrow> bool" where
  "terminal s \<longleftrightarrow> s = Completed \<or> s = Failed"

text \<open>Forward along the lifecycle, by one move or by two.\<close>

definition forward :: "job_status \<Rightarrow> job_status \<Rightarrow> bool" where
  "forward s s' \<longleftrightarrow>
     lifecycle s s' \<or> list_ex (\<lambda>m. lifecycle s m \<and> lifecycle m s') [Pending, Running, Completed, Failed]"

text \<open>The events that belong to the task of a job.\<close>

fun task_event :: "string \<Rightarrow> event \<Rightarrow> bool" where
  "task_event job_id (Begin i now) = (i = job_id)"
| "task_event job_id (Resume i now) = (i = job_id)"
| "task_event job_id ev = False"

text \<open>What relates the tasks to the registry in every state the process reaches: a task at its
  start has a pending job, a sleeping task a running job, and a job without a task is over.\<close>

fun task_ok :: "task_state option \<Rightarrow> 'r job option \<Rightarrow> bool" where
  "task_ok (Some NotStarted) (Some j) = (status j = Pending)"
| "task_ok (Some Sleeping) (Some j) = (status j = Running)"
| "task_ok (Some t) None = False"
| "task_ok None (Some j) = terminal (status j)"
| "task_ok None None = True"

definition task_inv :: "('v, 'r) process \<Rightarrow> bool" where
  "task_inv p \<longleftrightarrow> (\<forall>job_id. task_ok (tasks p job_id) (jobs (service p) job_id))"

text \<open>The shape of a job record at each status.\<close>

definition job_ok :: "'r job \<Rightarrow> bool" where
  "job_ok j \<longleftrightarrow>
     (case status j of
        Pending \<Rightarrow> completed_at j = None \<and> result j = None \<and> error j = None
      | Running \<Rightarrow> completed_at j = None \<and> result j = None \<and> error j = None
      | Completed \<Rightarrow> completed_at j \<noteq> None \<and> result j \<noteq> None \<and> error j = None
      | Failed \<Rightarrow> completed_at j \<noteq> None \<and> result j = None \<and> error j \<noteq> None)"


definition process_inv :: "('v, 'r) process \<Rightarrow> bool" where
  "process_inv p \<longleftrightarrow> task_inv p \<and> (\<forall>job_id j. jobs (service p) job_id = Some j \<longrightarrow> job_ok j)"

text \<open>What one event does to the registry and to the tasks: nothing, a new job with its task, or
  one job moved on with its task.\<close>

datatype 'r change = Unchanged | Added string "'r job" | Moved string "'r job" "task_state option"

definition changed :: "('v, 'r) process \<Rightarrow> 'r change \<Rightarrow> ('v, 'r) process \<Rightarrow> bool" where
  "changed p c p' \<longleftrightarrow>
     (case c of
        Unchanged \<Rightarrow> jobs (service p') = jobs (service p) \<and> tasks p' = tasks p
      | Added i j \<Rightarrow> jobs (service p') = (jobs (service p))(i \<mapsto> j) \<and>
                      tasks p' = (tasks p)(i \<mapsto> NotStarted)
      | Moved i j t \<Rightarrow> jobs (service p') = (jobs (service p))(i \<mapsto> j) \<and>
                        tasks p' = (tasks p)(i := t))"

section \<open>Concrete values and frames\<close>

text \<open>Cells that are integers or text, with the text that the cast to \<^verbatim>\<open>pl.Utf8\<close> gives them.\<close>

datatype pl_value = IntV int | StrV string

fun string_of_nat :: "nat \<Rightarrow> string" where
  "string_of_nat n =
     (if n < 10 then [char_of (48 + n)]
      else string_of_nat (n div 10) @ [char_of (48 + n mod 10)])"

declare string_of_nat.simps [simp del]

definition string_of_int :: "int \<Rightarrow> string" where
  "string_of_int i = (if i < 0 then CHR ''-'' # string_of_nat (nat (- i)) else string_of_nat (nat i))"

fun utf8_value :: "pl_value \<Rightarrow> string" where
  "utf8_value (IntV i) = string_of_int i"
| "utf8_value (StrV s) = s"

text \<open>
  Modelled from the spec: a typing of columns, for the examples. The spec (3) types each column
  as integer, floating-point, string or boolean. This typing knows two cases: a column of
  decimal integers that fit 64 bits, none of them in quotes or empty, is \<open>Int64\<close>, and the column
  of a payload without rows is \<open>String\<close>. Every other column is outside it, and refused.
\<close>

definition is_digit :: "char \<Rightarrow> bool" where
  "is_digit c \<longleftrightarrow> 48 \<le> (of_char c :: nat) \<and> (of_char c :: nat) \<le> 57"

definition is_nat_text :: "string \<Rightarrow> bool" where
  "is_nat_text s \<longleftrightarrow> s \<noteq> [] \<and> list_all is_digit s \<and> (s = ''0'' \<or> take 1 s \<noteq> ''0'')"

definition is_int_text :: "string \<Rightarrow> bool" where
  "is_int_text s =
     (case s of
        [] \<Rightarrow> False
      | c # cs \<Rightarrow> if c = CHR ''-'' then is_nat_text cs \<and> cs \<noteq> ''0'' else is_nat_text s)"

definition nat_of_text :: "string \<Rightarrow> nat" where
  "nat_of_text s = fold (\<lambda>c n. 10 * n + (of_char c - 48)) s 0"

definition int_of_text :: "string \<Rightarrow> int" where
  "int_of_text s =
     (case s of
        [] \<Rightarrow> 0
      | c # cs \<Rightarrow> if c = CHR ''-'' then - int (nat_of_text cs) else int (nat_of_text s))"

definition int64_field :: "csv_field \<Rightarrow> bool" where
  "int64_field f \<longleftrightarrow>
     \<not> fst f \<and> is_int_text (snd f) \<and>
     - (2 ^ 63) \<le> int_of_text (snd f) \<and> int_of_text (snd f) < 2 ^ 63"

definition type_plain :: "csv_field list \<Rightarrow> exn + string \<times> pl_value option list" where
  "type_plain col =
     (if col = [] then Inr (''String'', [])
      else if list_all int64_field col
      then Inr (''Int64'', map (\<lambda>f. Some (IntV (int_of_text (snd f)))) col)
      else Inl (LibraryError ''a column outside the typing of the examples''))"

text \<open>The payload of \<^verbatim>\<open>test_upload_valid_csv\<close>.\<close>

definition test_csv :: string where
  "test_csv = ''col1,col2,col3'' @ [CHR 0x0A] @ ''1,2,3'' @ [CHR 0x0A] @ ''4,5,6''"

text \<open>The frame it is read as.\<close>

definition test_frame :: "pl_value dataframe" where
  "test_frame =
     \<lparr>schema = [(''col1'', ''Int64''), (''col2'', ''Int64''), (''col3'', ''Int64'')],
      rows = [[Some (IntV 1), Some (IntV 2), Some (IntV 3)],
              [Some (IntV 4), Some (IntV 5), Some (IntV 6)]]\<rparr>"

text \<open>The frame of the fixture of \<^verbatim>\<open>TestWithData\<close>, and the same frame with a fourth row whose
  first cell is null.\<close>

definition health_frame :: "pl_value dataframe" where
  "health_frame =
     \<lparr>schema = [(''SEX (DISPLAY)'', ''String''), (''YEAR (DISPLAY)'', ''Int64''), (''Numeric'', ''Int64'')],
      rows = [[Some (StrV ''Male''), Some (IntV 2000), Some (IntV 10)],
              [Some (StrV ''Female''), Some (IntV 2001), Some (IntV 20)],
              [Some (StrV ''Both sexes''), Some (IntV 2002), Some (IntV 30)]]\<rparr>"

definition health_frame_null :: "pl_value dataframe" where
  "health_frame_null =
     health_frame\<lparr>rows := rows health_frame @ [[None, Some (IntV 2003), Some (IntV 40)]]\<rparr>"

text \<open>A frame of one column with eleven distinct values, the last of them twice.\<close>

definition codes_frame :: "pl_value dataframe" where
  "codes_frame =
     \<lparr>schema = [(''code'', ''Int64'')],
      rows = map (\<lambda>i. [Some (IntV i)]) [1, 2, 3, 4, 5, 6, 7, 8, 9, 10, 11, 11]\<rparr>"

text \<open>The cells of that column.\<close>

definition codes :: "pl_value option list" where
  "codes = map (\<lambda>i. Some (IntV i)) [1, 2, 3, 4, 5, 6, 7, 8, 9, 10, 11, 11]"

text \<open>The values 1 to 10 of that column, each counted once.\<close>

definition ten_codes :: "(pl_value option \<times> nat) list" where
  "ten_codes = map (\<lambda>i. (Some (IntV i), 1)) [1, 2, 3, 4, 5, 6, 7, 8, 9, 10]"

text \<open>The frame read from a file that holds a header line only.\<close>

definition header_only_frame :: "pl_value dataframe" where
  "header_only_frame = \<lparr>schema = [(''col1'', ''String''), (''col2'', ''String'')], rows = []\<rparr>"

text \<open>A stand-in for \<^verbatim>\<open>describe\<close> in examples: the \<open>count\<close> row only, the counts as text.\<close>

definition describe_count :: "pl_value dataframe \<Rightarrow> exn + string dataframe" where
  "describe_count df =
     Inr \<lparr>schema = (''statistic'', ''String'') # map (\<lambda>c. (c, ''Float64'')) (columns df),
          rows = [Some ''count'' #
                  map (\<lambda>c. Some (string_of_nat (length (filter (\<lambda>x. x \<noteq> None) (column_values df c)))))
                    (columns df)]\<rparr>"

text \<open>A service that holds a frame and no job.\<close>

definition service_with :: "'v dataframe \<Rightarrow> ('v, 'r) data_service" where
  "service_with df = \<lparr>data = Some df, jobs = Map.empty\<rparr>"

text \<open>The filter of \<^verbatim>\<open>query_by_sex\<close> for \<open>Male\<close>, and for the empty string.\<close>

definition male_filter :: filter_item where
  "male_filter = \<lparr>filter_column = ''SEX (DISPLAY)'', filter_value = ''Male''\<rparr>"

definition any_sex_filter :: filter_item where
  "any_sex_filter = \<lparr>filter_column = ''SEX (DISPLAY)'', filter_value = []\<rparr>"

text \<open>The record a job is created with, and a service in which one job was created before any
  upload.\<close>

definition pending_job :: "string \<Rightarrow> 'r job" where
  "pending_job now =
     \<lparr>status = Pending, created_at = now, completed_at = None, result = None, error = None\<rparr>"

definition created_service :: "(pl_value, (pl_value, string) summary) data_service" where
  "created_service = fst (create_summary_job ''job-1'' ''09:00'' init_service)"


text \<open>A service that holds the header-only frame, with one job created.\<close>

definition header_only_service :: "(pl_value, (pl_value, string) summary) data_service" where
  "header_only_service = fst (create_summary_job ''job-1'' ''09:00'' (service_with header_only_frame))"


text \<open>A reader under which every file holds the payload of the test, and a process in whose
  service one job was created.\<close>

definition test_reader :: "string \<Rightarrow> exn + pl_value dataframe" where
  "test_reader file_path = parse_tabular type_plain test_csv"

definition created_process :: "(pl_value, (pl_value, string) summary) process" where
  "created_process = init_process\<lparr>service := fst (create_summary_job ''job-1'' ''09:00'' (service init_process))\<rparr>"


text \<open>An upload, the creation of a job, and the two parts of its task.\<close>

definition test_trace :: "event list" where
  "test_trace = [Upload ''data.csv'', Create ''job-1'' ''09:00'', Begin ''job-1'' ''09:01'',
                 Resume ''job-1'' ''09:03'']"


text \<open>The state after these events, and events that follow: a second upload and a second job.\<close>

definition test_process :: "(pl_value, (pl_value, string) summary) process" where
  "test_process = the (run test_reader describe_count value_counts_first_seen init_process test_trace)"

definition later_trace :: "event list" where
  "later_trace = [Upload ''other.csv'', Create ''job-2'' ''10:00'', Begin ''job-2'' ''10:01'']"
section \<open>Schema and query\<close>

lemma columns_filter_rows: "columns (filter_rows m df) = columns df"
  by (simp add: filter_rows_def columns_def)

lemma columns_apply_filter: "columns (apply_filter utf8 df f) = columns df"
  by (simp add: apply_filter_def Let_def columns_filter_rows)

lemma columns_apply_filters: "columns (apply_filters utf8 df fs) = columns df"
  by (induction fs arbitrary: df) (simp_all add: columns_apply_filter)

lemma mask_true_iff:
  "str_contains utf8 (filter_value f) (cell d (filter_column f)) = Some True \<longleftrightarrow> matches utf8 f d"
  by (simp add: str_contains_def matches_def split: option.splits)

lemma rows_apply_filter:
  "rows (apply_filter utf8 df f) =
     filter (\<lambda>r. filter_column f \<in> set (columns df) \<longrightarrow> matches utf8 f (to_dict (columns df) r))
       (rows df)"
  by (simp add: apply_filter_def Let_def filter_rows_def mask_true_iff)

lemma rows_apply_filters:
  "rows (apply_filters utf8 df fs) =
     filter (\<lambda>r. \<forall>f \<in> set fs. filter_column f \<in> set (columns df) \<longrightarrow>
                   matches utf8 f (to_dict (columns df) r)) (rows df)"
proof (induction fs arbitrary: df)
  case Nil
  show ?case by simp
next
  case (Cons f fs)
  have "rows (apply_filters utf8 (apply_filter utf8 df f) fs) =
        filter (\<lambda>r. \<forall>g \<in> set fs. filter_column g \<in> set (columns df) \<longrightarrow>
                      matches utf8 g (to_dict (columns df) r))
          (rows (apply_filter utf8 df f))"
    by (simp add: Cons.IH columns_apply_filter)
  then show ?case
    by (simp add: rows_apply_filter)
qed

lemma columns_head: "columns (head df n) = columns df"
  by (simp add: head_def columns_def)

lemma rows_head_pos: "0 \<le> n \<Longrightarrow> rows (head df n) = take (nat n) (rows df)"
  by (simp add: head_def)


lemma query_data_eq:
  assumes "data st = Some df" and "0 \<le> limit"
  shows "query_data utf8 st fs limit =
           Inr (take (nat limit) (filter (selected utf8 (columns df) fs) (to_dicts df)))"
  using assms
  by (simp add: query_data_def to_dicts_def columns_head columns_apply_filters rows_head_pos
      rows_apply_filters selected_def list_all_iff filter_map o_def take_map)

text \<open>
  Claim C1. With a frame loaded and a positive limit, \<open>query_data\<close> returns records (it does
  not raise): at most \<open>limit\<close> of them, namely the first \<open>limit\<close> of the records of the frame
  that match every filter whose column is a column of the frame, in the order of the rows of the
  frame. Every returned record matches every such filter. One filter, applied to the frame
  reached so far, keeps exactly the records that match it when its column is present, and
  returns the frame as it is when its column is absent.
\<close>

theorem query_data_filters_and_limit:
  assumes "data st = Some df" and "0 < limit"
  shows "\<exists>recs. query_data utf8 st fs limit = Inr recs \<and>
           length recs \<le> nat limit \<and>
           recs = take (nat limit) (filter (selected utf8 (columns df) fs) (to_dicts df)) \<and>
           subseq recs (to_dicts df) \<and>
           (\<forall>d \<in> set recs. \<forall>f \<in> set fs. filter_column f \<in> set (columns df) \<longrightarrow> matches utf8 f d) \<and>
           (\<forall>f dg. columns dg = columns df \<longrightarrow>
              to_dicts (apply_filter utf8 dg f) =
                (if filter_column f \<in> set (columns df) then filter (matches utf8 f) (to_dicts dg)
                 else to_dicts dg)) \<and>
           (\<forall>f dg. filter_column f \<notin> set (columns dg) \<longrightarrow> apply_filter utf8 dg f = dg)"
proof -
  let ?sel = "filter (selected utf8 (columns df) fs) (to_dicts df)"
  let ?recs = "take (nat limit) ?sel"
  have q: "query_data utf8 st fs limit = Inr ?recs"
    using assms by (simp add: query_data_eq)
  have len: "length ?recs \<le> nat limit" by simp
  have "subseq ?recs ?sel"
    by (metis append_take_drop_id list_emb_append_mono list_emb_Nil subseq_order.order_refl append_Nil2) 
  then have ord: "subseq ?recs (to_dicts df)"
    using subseq_filter_left subseq_order.order_trans by blast
  have sat: "\<forall>d \<in> set ?recs. \<forall>f \<in> set fs. filter_column f \<in> set (columns df) \<longrightarrow> matches utf8 f d"
  proof
    fix d assume "d \<in> set ?recs"
    then have "d \<in> set ?sel" by (rule in_set_takeD)
    then show "\<forall>f \<in> set fs. filter_column f \<in> set (columns df) \<longrightarrow> matches utf8 f d"
      by (simp add: selected_def list_all_iff)
  qed
  have one: "\<forall>f dg. columns dg = columns df \<longrightarrow>
              to_dicts (apply_filter utf8 dg f) =
                (if filter_column f \<in> set (columns df) then filter (matches utf8 f) (to_dicts dg)
                 else to_dicts dg)"
    by (simp add: to_dicts_def columns_apply_filter rows_apply_filter filter_map o_def)
  have absent: "\<forall>f dg. filter_column f \<notin> set (columns dg) \<longrightarrow> apply_filter utf8 dg f = dg"
    by (simp add: apply_filter_def)
  from q len ord sat one absent show ?thesis by blast
qed



text \<open>The query of \<^verbatim>\<open>query_by_sex\<close> for \<open>Male\<close> on the frame of the test fixture, with a second
  filter on a column the frame does not have.\<close>

theorem query_data_filters_and_limit_witness:
  "data (service_with health_frame :: (pl_value, unit) data_service) = Some health_frame \<and>
   (0::int) < 100 \<and>
   query_data utf8_value (service_with health_frame :: (pl_value, unit) data_service)
       [male_filter, \<lparr>filter_column = ''AGE'', filter_value = ''9''\<rparr>] 100 =
     Inr [[(''SEX (DISPLAY)'', Some (StrV ''Male'')), (''YEAR (DISPLAY)'', Some (IntV 2000)),
           (''Numeric'', Some (IntV 10))]]"
proof -
  let ?st = "service_with health_frame :: (pl_value, unit) data_service"
  let ?fs = "[male_filter, \<lparr>filter_column = ''AGE'', filter_value = ''9''\<rparr>]"
  have h1: "data ?st = Some health_frame" by (simp add: service_with_def)
  have h2: "(0::int) < 100" by simp
  from query_data_filters_and_limit [OF h1 h2, of utf8_value ?fs]
  obtain recs where q: "query_data utf8_value ?st ?fs 100 = Inr recs"
    and r: "recs = take (nat 100) (filter (selected utf8_value (columns health_frame) ?fs)
                                     (to_dicts health_frame))"
    by blast
  have "take (nat 100) (filter (selected utf8_value (columns health_frame) ?fs)
                          (to_dicts health_frame)) =
        [[(''SEX (DISPLAY)'', Some (StrV ''Male'')), (''YEAR (DISPLAY)'', Some (IntV 2000)),
          (''Numeric'', Some (IntV 10))]]"
    by code_simp
  with q r h1 h2 show ?thesis by simp
qed

lemma set_rows_head: "set (rows (head df n)) \<subseteq> set (rows df)"
  by (auto simp: head_def dest: in_set_takeD)

lemma query_data_subset:
  assumes "data st = Some df"
  shows "\<exists>recs. query_data utf8 st fs limit = Inr recs \<and>
           set recs \<subseteq> set (filter (selected utf8 (columns df) fs) (to_dicts df))"
proof -
  let ?dg = "apply_filters utf8 df fs"
  have "set (to_dicts (head ?dg limit)) \<subseteq> set (to_dicts ?dg)"
    using set_rows_head [of ?dg limit] by (auto simp: to_dicts_def columns_head)
  also have "to_dicts ?dg = filter (selected utf8 (columns df) fs) (to_dicts df)"
    by (simp add: to_dicts_def columns_apply_filters rows_apply_filters selected_def
        list_all_iff filter_map o_def)
  finally show ?thesis using assms by (simp add: query_data_def)
qed

lemma null_cell: "map_of d c = Some None \<Longrightarrow> cell d c = None"
  by (simp add: cell_def)

lemma matches_not_null: "matches utf8 f d \<Longrightarrow> cell d (filter_column f) \<noteq> None"
  by (auto simp: matches_def split: option.splits)

lemma matches_empty: "filter_value f = [] \<Longrightarrow> matches utf8 f d \<longleftrightarrow> cell d (filter_column f) \<noteq> None"
  by (auto simp: matches_def split: option.splits)

text \<open>
  Claim C10. With a frame loaded and a filter on a column of the frame among the filters, no
  returned record has a null under that column, whatever the filter's string: every row with a
  null there is left out. With the empty string as the only filter, the query returns exactly
  the records whose cell under the column is not null (up to the limit).
\<close>

theorem query_excludes_null_cells:
  assumes "data st = Some df" and "f \<in> set fs" and "filter_column f \<in> set (columns df)"
  shows "\<exists>recs. query_data utf8 st fs limit = Inr recs \<and>
           (\<forall>d \<in> set recs. cell d (filter_column f) \<noteq> None \<and> map_of d (filter_column f) \<noteq> Some None) \<and>
           (\<forall>r \<in> set (rows df). map_of (to_dict (columns df) r) (filter_column f) = Some None \<longrightarrow>
              to_dict (columns df) r \<notin> set recs) \<and>
           (filter_value f = [] \<and> 0 \<le> limit \<longrightarrow>
              query_data utf8 st [f] limit =
                Inr (take (nat limit) (filter (\<lambda>d. cell d (filter_column f) \<noteq> None) (to_dicts df))))"
proof -
  from query_data_subset [OF assms(1), of utf8 fs limit]
  obtain recs where q: "query_data utf8 st fs limit = Inr recs"
    and sub: "set recs \<subseteq> set (filter (selected utf8 (columns df) fs) (to_dicts df))"
    by blast
  have nn: "cell d (filter_column f) \<noteq> None" if "d \<in> set recs" for d
  proof -
    from that sub have "selected utf8 (columns df) fs d" by auto
    with assms(2,3) have "matches utf8 f d" by (auto simp: selected_def list_all_iff)
    then show ?thesis by (rule matches_not_null)
  qed
  then have a: "\<forall>d \<in> set recs. cell d (filter_column f) \<noteq> None \<and> map_of d (filter_column f) \<noteq> Some None"
    using null_cell by blast
  then have b: "\<forall>r \<in> set (rows df). map_of (to_dict (columns df) r) (filter_column f) = Some None \<longrightarrow>
              to_dict (columns df) r \<notin> set recs"
    by blast
  have c: "filter_value f = [] \<and> 0 \<le> limit \<longrightarrow>
              query_data utf8 st [f] limit =
                Inr (take (nat limit) (filter (\<lambda>d. cell d (filter_column f) \<noteq> None) (to_dicts df)))"
  proof
    assume e: "filter_value f = [] \<and> 0 \<le> limit"
    have "selected utf8 (columns df) [f] = (\<lambda>d. cell d (filter_column f) \<noteq> None)"
      using assms(3) e by (simp add: fun_eq_iff selected_def matches_empty)
    with assms(1) e show "query_data utf8 st [f] limit =
        Inr (take (nat limit) (filter (\<lambda>d. cell d (filter_column f) \<noteq> None) (to_dicts df)))"
      by (simp only: query_data_eq)
  qed
  from q a b c show ?thesis by blast
qed

text \<open>The empty string on the frame with a null in the filtered column: the three rows without
  the null come back.\<close>

theorem query_excludes_null_cells_witness:
  "data (service_with health_frame_null :: (pl_value, unit) data_service) = Some health_frame_null \<and>
   any_sex_filter \<in> set [any_sex_filter] \<and>
   filter_column any_sex_filter \<in> set (columns health_frame_null) \<and>
   [None, Some (IntV 2003), Some (IntV 40)] \<in> set (rows health_frame_null) \<and>
   query_data utf8_value (service_with health_frame_null :: (pl_value, unit) data_service)
       [any_sex_filter] 100 = Inr (to_dicts health_frame)"
proof -
  let ?st = "service_with health_frame_null :: (pl_value, unit) data_service"
  have h1: "data ?st = Some health_frame_null" by (simp add: service_with_def)
  have h2: "any_sex_filter \<in> set [any_sex_filter]" by simp
  have h3: "filter_column any_sex_filter \<in> set (columns health_frame_null)" by code_simp
  have h4: "[None, Some (IntV 2003), Some (IntV 40)] \<in> set (rows health_frame_null)" by code_simp
  have e: "filter_value any_sex_filter = [] \<and> (0::int) \<le> 100" by (simp add: any_sex_filter_def)
  from query_excludes_null_cells [OF h1 h2 h3, of utf8_value 100] e
  have "query_data utf8_value ?st [any_sex_filter] 100 =
          Inr (take (nat 100) (filter (\<lambda>d. cell d (filter_column any_sex_filter) \<noteq> None)
                                 (to_dicts health_frame_null)))"
    by blast
  moreover have "take (nat 100) (filter (\<lambda>d. cell d (filter_column any_sex_filter) \<noteq> None)
                                 (to_dicts health_frame_null)) = to_dicts health_frame"
    by code_simp
  ultimately show ?thesis using h1 h2 h3 h4 by simp
qed

text \<open>
  Claim C7. \<open>get_schema\<close> and \<open>query_data\<close> each raise exactly when no frame is held, and what
  they raise is then \<^verbatim>\<open>ValueError("No data loaded")\<close>; with a frame held both return.
\<close>

theorem no_data_loaded_iff:
  "(get_schema st = Inl e \<longleftrightarrow> data st = None \<and> e = ValueError ''No data loaded'') \<and>
   (query_data utf8 st fs limit = Inl e \<longleftrightarrow> data st = None \<and> e = ValueError ''No data loaded'') \<and>
   (data st \<noteq> None \<longrightarrow>
      (\<exists>s. get_schema st = Inr s) \<and> (\<exists>recs. query_data utf8 st fs limit = Inr recs))"
  by (auto simp: get_schema_def query_data_def split: option.splits)

theorem no_data_loaded_iff_witness:
  "data (service_with health_frame :: (pl_value, unit) data_service) \<noteq> None \<and>
   get_schema (service_with health_frame :: (pl_value, unit) data_service) \<noteq>
     Inl (ValueError ''No data loaded'') \<and>
   query_data utf8_value (service_with health_frame :: (pl_value, unit) data_service) [male_filter] 5 \<noteq>
     Inl (ValueError ''No data loaded'') \<and>
   get_schema (init_service :: (pl_value, unit) data_service) = Inl (ValueError ''No data loaded'') \<and>
   query_data utf8_value (init_service :: (pl_value, unit) data_service) [male_filter] 5 =
     Inl (ValueError ''No data loaded'')"
proof -
  let ?st = "service_with health_frame :: (pl_value, unit) data_service"
  let ?ini = "init_service :: (pl_value, unit) data_service"
  have h: "data ?st \<noteq> None" by (simp add: service_with_def)
  have h0: "data ?ini = None" by (simp add: init_service_def)
  note a = no_data_loaded_iff [of ?st "ValueError ''No data loaded''" utf8_value "[male_filter]" 5]
  note b = no_data_loaded_iff [of ?ini "ValueError ''No data loaded''" utf8_value "[male_filter]" 5]
  from a h have "get_schema ?st \<noteq> Inl (ValueError ''No data loaded'')"
    and "query_data utf8_value ?st [male_filter] 5 \<noteq> Inl (ValueError ''No data loaded'')"
    by simp_all
  moreover from b h0 have "get_schema ?ini = Inl (ValueError ''No data loaded'')"
    and "query_data utf8_value ?ini [male_filter] 5 = Inl (ValueError ''No data loaded'')"
    by simp_all
  ultimately show ?thesis using h by simp
qed

section \<open>Loading and the schema\<close>

lemma load_then_get_schema:
  assumes "load_csv_async read_csv st path = (st', Inr df)"
  shows "read_csv path = Inr df \<and> data st' = Some df \<and>
         get_schema st' =
           Inr \<lparr>schema_columns = columns df,
                schema_dtypes = fold (\<lambda>(col, dtype) d. AList.update col dtype d)
                                  (zip (columns df) (dtypes df)) [],
                schema_shape = shape df,
                sample_data = to_dicts (head df 5)\<rparr>"
  using assms by (auto simp: load_csv_async_def get_schema_def split: sum.splits)

lemma upload_then_get_schema:
  assumes "upload_csv read_payload st tmp name content = (st', Inr resp)"
  shows "\<exists>df s. read_payload content = Inr df \<and> suffix ''.csv'' name \<and>
           response_rows resp = fst (shape df) \<and> response_columns resp = snd (shape df) \<and>
           get_schema st' = Inr s \<and>
           schema_shape s = (response_rows resp, response_columns resp) \<and>
           schema_columns s = columns df"
proof -
  from assms have n: "suffix ''.csv'' name"
    by (auto simp: upload_csv_def split: if_splits)
  obtain st1 r where l: "load_csv_async (\<lambda>file_path. read_payload content) st tmp = (st1, r)"
    by (cases "load_csv_async (\<lambda>file_path. read_payload content) st tmp")
  from assms n l obtain df where r: "r = Inr df" and s: "st' = st1"
    and resp: "response_rows resp = fst (shape df)" "response_columns resp = snd (shape df)"
    by (cases r) (auto simp: upload_csv_def)
  from load_then_get_schema [OF l [unfolded r]] s resp n show ?thesis by auto
qed

lemma upload_of_valid:
  assumes "read_payload content = Inr df" and "suffix ''.csv'' name"
  shows "upload_csv read_payload st tmp name content =
           (st\<lparr>data := Some df\<rparr>,
            Inr \<lparr>message = ''File uploaded successfully'', filename = name,
                 response_rows = fst (shape df), response_columns = snd (shape df)\<rparr>)"
  using assms by (simp add: upload_csv_def load_csv_async_def)

lemma type_columns_length:
  "type_columns typing cols = Inr ts \<Longrightarrow> length ts = length cols"
  by (induction cols arbitrary: ts) (auto split: sum.splits)

lemma parse_tabular_shape:
  assumes "parse_tabular typing payload = Inr df"
  shows "\<exists>header body. csv_records (strip_bom payload) = Some (header # body) \<and>
           columns df = map snd header \<and> shape df = (length body, length header)"
proof -
  from assms obtain recs where r: "csv_records (strip_bom payload) = Some recs"
    by (auto simp: parse_tabular_def split: if_splits option.splits)
  with assms obtain header body where hb: "recs = header # body"
    by (cases recs) (auto simp: parse_tabular_def split: if_splits)
  from assms r hb obtain typed where
    t: "type_columns typing (map (\<lambda>j. map (\<lambda>r. r ! j) body) [0..<length header]) = Inr typed"
    and df: "df = \<lparr>schema = zip (map snd header) (map fst typed),
                   rows = map (\<lambda>i. map (\<lambda>(dtype, cells). cells ! i) typed) [0..<length body]\<rparr>"
    by (auto simp: parse_tabular_def Let_def split: if_splits sum.splits)
  from type_columns_length [OF t] have "length typed = length header" by simp
  with df have "columns df = map snd header" and "shape df = (length body, length header)"
    by (simp_all add: columns_def shape_def)
  with r hb show ?thesis by blast
qed

lemma test_csv_records:
  "csv_records (strip_bom test_csv) =
     Some [[(False, ''col1''), (False, ''col2''), (False, ''col3'')],
           [(False, ''1''), (False, ''2''), (False, ''3'')],
           [(False, ''4''), (False, ''5''), (False, ''6'')]]"
  by code_simp

text \<open>
  Claim C2. Whatever the reader: after a load that returned a frame, \<open>get_schema\<close> reports the
  shape and the columns of that frame; and after an upload that succeeded, it reports as shape
  the rows and the columns of the upload response. With the parser modelled from the spec,
  whatever the typing of the columns: a payload that the parser accepts, uploaded under a name
  that ends in \<^verbatim>\<open>.csv\<close>, is loaded, and the response and the schema report as many rows as
  the payload has records after the header and as many columns as the header has fields; the
  columns of the schema are the names of the header, in their order. In particular the payload
  of \<^verbatim>\<open>test_upload_valid_csv\<close>, when its columns are typed, gives 2 rows and the 3 columns
  \<open>col1\<close>, \<open>col2\<close>, \<open>col3\<close>.
\<close>

theorem load_then_schema:
  "(\<forall>st' df. load_csv_async read_csv st path = (st', Inr df) \<longrightarrow>
      (\<exists>s. get_schema st' = Inr s \<and> schema_shape s = shape df \<and> schema_columns s = columns df)) \<and>
   (\<forall>st' resp. upload_csv read_payload st tmp name content = (st', Inr resp) \<longrightarrow>
      (\<exists>df s. read_payload content = Inr df \<and>
         response_rows resp = fst (shape df) \<and> response_columns resp = snd (shape df) \<and>
         get_schema st' = Inr s \<and>
         schema_shape s = (response_rows resp, response_columns resp) \<and>
         schema_columns s = columns df)) \<and>
   (\<forall>df. parse_tabular typing content = Inr df \<and> suffix ''.csv'' name \<longrightarrow>
      (\<exists>header body st' resp s.
         csv_records (strip_bom content) = Some (header # body) \<and>
         upload_csv (parse_tabular typing) st tmp name content = (st', Inr resp) \<and>
         response_rows resp = length body \<and> response_columns resp = length header \<and>
         get_schema st' = Inr s \<and>
         schema_shape s = (length body, length header) \<and>
         schema_columns s = map snd header)) \<and>
   (\<forall>df. parse_tabular typing test_csv = Inr df \<longrightarrow>
      shape df = (2, 3) \<and> columns df = [''col1'', ''col2'', ''col3''])"
proof -
  have a: "\<exists>s. get_schema st' = Inr s \<and> schema_shape s = shape df \<and> schema_columns s = columns df"
    if "load_csv_async read_csv st path = (st', Inr df)" for st' df
    using load_then_get_schema [OF that] by simp
  have b: "\<exists>df s. read_payload content = Inr df \<and>
         response_rows resp = fst (shape df) \<and> response_columns resp = snd (shape df) \<and>
         get_schema st' = Inr s \<and>
         schema_shape s = (response_rows resp, response_columns resp) \<and>
         schema_columns s = columns df"
    if "upload_csv read_payload st tmp name content = (st', Inr resp)" for st' resp
    using upload_then_get_schema [OF that] by blast
  have c: "\<exists>header body st' resp s.
         csv_records (strip_bom content) = Some (header # body) \<and>
         upload_csv (parse_tabular typing) st tmp name content = (st', Inr resp) \<and>
         response_rows resp = length body \<and> response_columns resp = length header \<and>
         get_schema st' = Inr s \<and>
         schema_shape s = (length body, length header) \<and>
         schema_columns s = map snd header"
    if p: "parse_tabular typing content = Inr df" and n: "suffix ''.csv'' name" for df
  proof -
    from parse_tabular_shape [OF p] obtain header body
      where r: "csv_records (strip_bom content) = Some (header # body)"
        and cs: "columns df = map snd header" and sh: "shape df = (length body, length header)"
      by blast
    let ?resp = "\<lparr>message = ''File uploaded successfully'', filename = name,
                  response_rows = fst (shape df), response_columns = snd (shape df)\<rparr>"
    have u: "upload_csv (parse_tabular typing) st tmp name content = (st\<lparr>data := Some df\<rparr>, Inr ?resp)"
      by (rule upload_of_valid [of "parse_tabular typing" content df name, OF p n])
    from upload_then_get_schema [OF u] p obtain s
      where "get_schema (st\<lparr>data := Some df\<rparr>) = Inr s"
        and "schema_shape s = (response_rows ?resp, response_columns ?resp)"
        and "schema_columns s = columns df"
      by auto
    with r cs sh u show ?thesis by (intro exI [of _ header] exI [of _ body]) auto
  qed
  have d: "shape df = (2, 3) \<and> columns df = [''col1'', ''col2'', ''col3'']"
    if "parse_tabular typing test_csv = Inr df" for df
    using parse_tabular_shape [OF that] by (auto simp: test_csv_records)
  from a b c d show ?thesis by blast
qed

text \<open>The payload of the test, uploaded to a fresh service as \<^verbatim>\<open>test.csv\<close>.\<close>

theorem load_then_schema_witness:
  "parse_tabular type_plain test_csv = Inr test_frame \<and>
   suffix ''.csv'' ''test.csv'' \<and>
   upload_csv (parse_tabular type_plain) (init_service :: (pl_value, unit) data_service)
       ''/tmp/upload.csv'' ''test.csv'' test_csv =
     (init_service\<lparr>data := Some test_frame\<rparr>,
      Inr \<lparr>message = ''File uploaded successfully'', filename = ''test.csv'',
           response_rows = 2, response_columns = 3\<rparr>) \<and>
   map_sum id schema_shape
     (get_schema ((init_service :: (pl_value, unit) data_service)\<lparr>data := Some test_frame\<rparr>)) =
     Inr (2, 3) \<and>
   map_sum id schema_columns
     (get_schema ((init_service :: (pl_value, unit) data_service)\<lparr>data := Some test_frame\<rparr>)) =
     Inr [''col1'', ''col2'', ''col3'']"
proof -
  let ?ini = "init_service :: (pl_value, unit) data_service"
  have p: "parse_tabular type_plain test_csv = Inr test_frame" by code_simp
  have n: "suffix ''.csv'' ''test.csv''" by code_simp
  have sh: "shape test_frame = (2, 3)" by code_simp
  have u: "upload_csv (parse_tabular type_plain) ?ini ''/tmp/upload.csv'' ''test.csv'' test_csv =
             (?ini\<lparr>data := Some test_frame\<rparr>,
              Inr \<lparr>message = ''File uploaded successfully'', filename = ''test.csv'',
                   response_rows = 2, response_columns = 3\<rparr>)"
    by (simp add: upload_of_valid [of "parse_tabular type_plain" test_csv test_frame "''test.csv''", OF p n] sh)
  note t = load_then_schema [of "\<lambda>file_path. parse_tabular type_plain test_csv" ?ini "''/tmp/upload.csv''"
      "parse_tabular type_plain" "''/tmp/upload.csv''" "''test.csv''" test_csv type_plain]
  from t [THEN conjunct2, THEN conjunct1, rule_format, OF u] obtain df s
    where rp: "parse_tabular type_plain test_csv = Inr df"
      and g: "get_schema (?ini\<lparr>data := Some test_frame\<rparr>) = Inr s"
      and ss: "schema_shape s = (2, 3)" and sc: "schema_columns s = columns df"
    by auto
  from rp p have e: "df = test_frame" by simp
  from t [THEN conjunct2, THEN conjunct2, THEN conjunct2, rule_format, OF p]
  have c: "columns test_frame = [''col1'', ''col2'', ''col3'']" by simp
  from g ss sc e c have "map_sum id schema_shape (get_schema (?ini\<lparr>data := Some test_frame\<rparr>)) = Inr (2, 3)"
    and "map_sum id schema_columns (get_schema (?ini\<lparr>data := Some test_frame\<rparr>)) =
           Inr [''col1'', ''col2'', ''col3'']"
    by simp_all
  with p n u show ?thesis by blast
qed


section \<open>The summarization job\<close>

lemma on_exception_registered:
  "jobs st job_id = Some j \<Longrightarrow>
   on_exception now st job_id e =
     (st\<lparr>jobs := (jobs st)(job_id \<mapsto>
          j\<lparr>status := Failed, completed_at := Some now, error := Some (str_exn e)\<rparr>)\<rparr>, Returned)"
  by (simp add: on_exception_def)

lemma begin_no_data:
  assumes "jobs st job_id = Some j" and "data st = None"
  shows "run_summary_job_begin now st job_id =
           (st\<lparr>jobs := (jobs st)(job_id \<mapsto>
                j\<lparr>status := Failed, completed_at := Some now, error := Some ''No data loaded''\<rparr>)\<rparr>,
            Returned)"
  using assms by (simp add: run_summary_job_begin_def on_exception_def)

lemma begin_with_data:
  assumes "jobs st job_id = Some j" and "data st = Some df"
  shows "run_summary_job_begin now st job_id =
           (st\<lparr>jobs := (jobs st)(job_id \<mapsto> j\<lparr>status := Running\<rparr>)\<rparr>, Suspended)"
  using assms by (simp add: run_summary_job_begin_def)

lemma resume_failure:
  assumes "jobs st job_id = Some j" and "generate_summaries describe vc (data st) = Inl e"
  shows "run_summary_job_resume describe vc now st job_id =
           (st\<lparr>jobs := (jobs st)(job_id \<mapsto>
                j\<lparr>status := Failed, completed_at := Some now, error := Some (str_exn e)\<rparr>)\<rparr>,
            Returned)"
  using assms by (simp add: run_summary_job_resume_def on_exception_def)

lemma resume_success:
  assumes "jobs st job_id = Some j" and "generate_summaries describe vc (data st) = Inr res"
  shows "run_summary_job_resume describe vc now st job_id =
           (st\<lparr>jobs := (jobs st)(job_id \<mapsto>
                j\<lparr>status := Completed, completed_at := Some now, result := Some res\<rparr>)\<rparr>,
            Returned)"
  using assms by (simp add: run_summary_job_resume_def)

lemma begin_outcome:
  "jobs st job_id = Some j \<Longrightarrow> snd (run_summary_job_begin now st job_id) \<in> {Suspended, Returned}"
  by (cases "data st") (simp_all add: begin_no_data begin_with_data)

lemma resume_outcome:
  "jobs st job_id = Some j \<Longrightarrow> snd (run_summary_job_resume describe vc now st job_id) = Returned"
  by (cases "generate_summaries describe vc (data st)") (simp_all add: resume_failure resume_success)

lemma run_outcome:
  assumes "jobs st job_id = Some j"
  shows "snd (run_summary_job describe vc now now' st job_id) = Returned"
proof (cases "data st")
  case None
  with assms show ?thesis by (simp add: run_summary_job_def begin_no_data)
next
  case (Some df)
  let ?st1 = "st\<lparr>jobs := (jobs st)(job_id \<mapsto> j\<lparr>status := Running\<rparr>)\<rparr>"
  have "jobs ?st1 job_id = Some (j\<lparr>status := Running\<rparr>)" by simp
  then have "snd (run_summary_job_resume describe vc now' ?st1 job_id) = Returned"
    by (rule resume_outcome)
  with assms Some show ?thesis by (simp add: run_summary_job_def begin_with_data)
qed

text \<open>
  Claim C4. For a job that is in the registry, no exception leaves the coroutine
  \<open>_run_summary_job\<close>, in either of its parts or as a whole. When no frame is loaded the first
  part ends the job: its record becomes failed, with the time of the failure as completion time
  and the error \<open>No data loaded\<close>. When the summaries raise an exception \<open>e\<close>, the second part
  makes the record failed, with the completion time and \<open>str(e)\<close> as error.
\<close>

theorem summary_job_failures_trapped:
  assumes "jobs st job_id = Some j"
  shows "(\<forall>e. snd (run_summary_job_begin now st job_id) \<noteq> Raised e) \<and>
         (\<forall>e. snd (run_summary_job_resume describe vc now st job_id) \<noteq> Raised e) \<and>
         (\<forall>e. snd (run_summary_job describe vc now now' st job_id) \<noteq> Raised e) \<and>
         (data st = None \<longrightarrow>
            run_summary_job_begin now st job_id =
              (st\<lparr>jobs := (jobs st)(job_id \<mapsto>
                   j\<lparr>status := Failed, completed_at := Some now, error := Some ''No data loaded''\<rparr>)\<rparr>,
               Returned) \<and>
            run_summary_job describe vc now now' st job_id = run_summary_job_begin now st job_id) \<and>
         (\<forall>e. generate_summaries describe vc (data st) = Inl e \<longrightarrow>
            run_summary_job_resume describe vc now st job_id =
              (st\<lparr>jobs := (jobs st)(job_id \<mapsto>
                   j\<lparr>status := Failed, completed_at := Some now, error := Some (str_exn e)\<rparr>)\<rparr>,
               Returned))"
proof -
  have a: "\<forall>e. snd (run_summary_job_begin now st job_id) \<noteq> Raised e"
    using begin_outcome [OF assms, of now] by auto
  have b: "\<forall>e. snd (run_summary_job_resume describe vc now st job_id) \<noteq> Raised e"
    by (simp add: resume_outcome [OF assms])
  have c: "\<forall>e. snd (run_summary_job describe vc now now' st job_id) \<noteq> Raised e"
    by (simp add: run_outcome [OF assms])
  have d: "data st = None \<longrightarrow>
            run_summary_job_begin now st job_id =
              (st\<lparr>jobs := (jobs st)(job_id \<mapsto>
                   j\<lparr>status := Failed, completed_at := Some now, error := Some ''No data loaded''\<rparr>)\<rparr>,
               Returned) \<and>
            run_summary_job describe vc now now' st job_id = run_summary_job_begin now st job_id"
    using assms by (simp add: begin_no_data run_summary_job_def)
  have e: "\<forall>e. generate_summaries describe vc (data st) = Inl e \<longrightarrow>
            run_summary_job_resume describe vc now st job_id =
              (st\<lparr>jobs := (jobs st)(job_id \<mapsto>
                   j\<lparr>status := Failed, completed_at := Some now, error := Some (str_exn e)\<rparr>)\<rparr>,
               Returned)"
    using assms by (simp add: resume_failure)
  from a b c d e show ?thesis by blast
qed

text \<open>A job created and run with no frame loaded.\<close>

theorem summary_job_failures_trapped_witness:
  "jobs created_service ''job-1'' = Some (pending_job ''09:00'') \<and>
   data created_service = None \<and>
   snd (run_summary_job describe_count value_counts_first_seen ''09:01'' ''09:03''
          created_service ''job-1'') = Returned \<and>
   jobs (fst (run_summary_job describe_count value_counts_first_seen ''09:01'' ''09:03''
                created_service ''job-1'')) ''job-1'' =
     Some \<lparr>status = Failed, created_at = ''09:00'', completed_at = Some ''09:01'', result = None,
           error = Some ''No data loaded''\<rparr>"
proof -
  have h: "jobs created_service ''job-1'' = Some (pending_job ''09:00'')"
    by (simp add: created_service_def create_summary_job_def pending_job_def)
  have n: "data created_service = None"
    by (simp add: created_service_def create_summary_job_def init_service_def)
  note t = summary_job_failures_trapped [OF h, of "''09:01''" describe_count
      value_counts_first_seen "''09:03''"]
  from t n have r: "run_summary_job describe_count value_counts_first_seen ''09:01'' ''09:03''
      created_service ''job-1'' =
      (created_service\<lparr>jobs := (jobs created_service)(''job-1'' \<mapsto>
          (pending_job ''09:00'')\<lparr>status := Failed, completed_at := Some ''09:01'',
             error := Some ''No data loaded''\<rparr>)\<rparr>, Returned)"
    by simp
  show ?thesis using h n by (simp add: r) (simp add: pending_job_def)
qed

section \<open>Summaries of a frame without rows\<close>

lemma missing_loop_no_rows:
  "rows df = [] \<Longrightarrow> cols \<noteq> [] \<Longrightarrow> missing_loop df cols missing = Inl ZeroDivisionError"
  by (cases cols) (simp_all add: shape_def py_truediv_def)

lemma missing_values_no_rows:
  "columns df \<noteq> [] \<Longrightarrow> rows df = [] \<Longrightarrow> get_missing_values df = Inl ZeroDivisionError"
  by (simp add: get_missing_values_def missing_loop_no_rows)

lemma summaries_no_rows:
  assumes "columns df \<noteq> []" and "rows df = []"
  shows "\<exists>e. generate_summaries describe vc (Some df) = Inl e \<and>
              (\<forall>b. get_basic_statistics describe df = Inr b \<longrightarrow> e = ZeroDivisionError)"
  using missing_values_no_rows [OF assms]
  by (cases "get_basic_statistics describe df") (simp_all add: generate_summaries_def)

text \<open>
  Claim C9. For a frame with at least one column and no row, \<open>_get_missing_values\<close> raises
  \<open>ZeroDivisionError\<close> (the null count of the first column is divided by the row count 0), so
  the summaries raise and produce no report; when the basic statistics return, the exception
  raised is that \<open>ZeroDivisionError\<close>. A job of the registry run over such a frame ends failed,
  with the description of the exception as its error.
\<close>

theorem zero_rows_job_fails:
  assumes "columns df \<noteq> []" and "rows df = []"
    and "data st = Some df" and "jobs st job_id = Some j"
  shows "get_missing_values df = Inl ZeroDivisionError \<and>
         (\<exists>e. generate_summaries describe vc (data st) = Inl e \<and>
              (\<forall>b. get_basic_statistics describe df = Inr b \<longrightarrow> e = ZeroDivisionError) \<and>
              run_summary_job_resume describe vc now' (fst (run_summary_job_begin now st job_id)) job_id =
                run_summary_job describe vc now now' st job_id \<and>
              run_summary_job describe vc now now' st job_id =
                (st\<lparr>jobs := (jobs st)(job_id \<mapsto>
                     j\<lparr>status := Failed, completed_at := Some now', error := Some (str_exn e)\<rparr>)\<rparr>,
                 Returned))"
proof -
  from summaries_no_rows [OF assms(1,2), of describe vc]
  obtain e where e: "generate_summaries describe vc (Some df) = Inl e"
    and z: "\<forall>b. get_basic_statistics describe df = Inr b \<longrightarrow> e = ZeroDivisionError"
    by blast
  let ?st1 = "st\<lparr>jobs := (jobs st)(job_id \<mapsto> j\<lparr>status := Running\<rparr>)\<rparr>"
  have b: "run_summary_job_begin now st job_id = (?st1, Suspended)"
    by (rule begin_with_data [OF assms(4) assms(3)])
  have j1: "jobs ?st1 job_id = Some (j\<lparr>status := Running\<rparr>)" by simp
  have g: "generate_summaries describe vc (data ?st1) = Inl e"
    using e assms(3) by simp
  have r: "run_summary_job_resume describe vc now' ?st1 job_id =
           (?st1\<lparr>jobs := (jobs ?st1)(job_id \<mapsto>
                (j\<lparr>status := Running\<rparr>)\<lparr>status := Failed, completed_at := Some now',
                   error := Some (str_exn e)\<rparr>)\<rparr>, Returned)"
    by (rule resume_failure [OF j1 g])
  have w: "run_summary_job describe vc now now' st job_id =
           run_summary_job_resume describe vc now' ?st1 job_id"
    by (simp add: run_summary_job_def b)
  have f: "run_summary_job describe vc now now' st job_id =
                (st\<lparr>jobs := (jobs st)(job_id \<mapsto>
                     j\<lparr>status := Failed, completed_at := Some now', error := Some (str_exn e)\<rparr>)\<rparr>,
                 Returned)"
    by (simp add: w r)
  show ?thesis
    using missing_values_no_rows [OF assms(1,2)] e z f assms(3) by (auto simp: b w)
qed

text \<open>The job over the frame of a file with a header line only.\<close>

theorem zero_rows_job_fails_witness:
  "columns header_only_frame \<noteq> [] \<and> rows header_only_frame = [] \<and>
   data header_only_service = Some header_only_frame \<and>
   jobs header_only_service ''job-1'' = Some (pending_job ''09:00'') \<and>
   get_missing_values header_only_frame = Inl ZeroDivisionError \<and>
   jobs (fst (run_summary_job describe_count value_counts_first_seen ''09:01'' ''09:03''
                header_only_service ''job-1'')) ''job-1'' =
     Some \<lparr>status = Failed, created_at = ''09:00'', completed_at = Some ''09:03'', result = None,
           error = Some ''division by zero''\<rparr>"
proof -
  have h1: "columns header_only_frame \<noteq> []" by (simp add: header_only_frame_def columns_def)
  have h2: "rows header_only_frame = []" by (simp add: header_only_frame_def)
  have h3: "data header_only_service = Some header_only_frame"
    by (simp add: header_only_service_def create_summary_job_def service_with_def)
  have h4: "jobs header_only_service ''job-1'' = Some (pending_job ''09:00'')"
    by (simp add: header_only_service_def create_summary_job_def pending_job_def)
  have s: "get_basic_statistics describe_count header_only_frame = Inr NoNumericColumns"
    by (simp add: get_basic_statistics_def header_only_frame_def columns_def dtypes_def)
  from zero_rows_job_fails [OF h1 h2 h3 h4, of describe_count value_counts_first_seen
      "''09:03''" "''09:01''"] s
  have m: "get_missing_values header_only_frame = Inl ZeroDivisionError"
    and r: "run_summary_job describe_count value_counts_first_seen ''09:01'' ''09:03''
              header_only_service ''job-1'' =
            (header_only_service\<lparr>jobs := (jobs header_only_service)(''job-1'' \<mapsto>
               (pending_job ''09:00'')\<lparr>status := Failed, completed_at := Some ''09:03'',
                  error := Some (str_exn ZeroDivisionError)\<rparr>)\<rparr>, Returned)"
    by auto
  show ?thesis using h1 h2 h3 h4 m by (simp add: r) (simp add: pending_job_def)
qed

section \<open>The registry\<close>

lemma step_keeps_jobs:
  assumes "step rc ds vc p ev = Some p'" and "jobs (service p) job_id \<noteq> None"
  shows "jobs (service p') job_id \<noteq> None"
proof (cases ev)
  case (Upload path)
  with assms show ?thesis
    by (auto simp: load_csv_async_def split: sum.splits)
next
  case (Create i now)
  with assms show ?thesis
    by (auto simp: create_summary_job_def split: if_splits)
next
  case (Begin i now)
  with assms show ?thesis
    by (auto simp: after_part_def run_summary_job_begin_def on_exception_def Let_def
        split: if_splits option.splits outcome.splits prod.splits)
next
  case (Resume i now)
  with assms show ?thesis
    by (auto simp: after_part_def run_summary_job_resume_def on_exception_def
        split: if_splits option.splits outcome.splits prod.splits sum.splits)
qed

lemma run_keeps_jobs:
  "run rc ds vc p evs = Some p' \<Longrightarrow> jobs (service p) job_id \<noteq> None \<Longrightarrow>
   jobs (service p') job_id \<noteq> None"
proof (induction evs arbitrary: p)
  case Nil
  then show ?case by simp
next
  case (Cons ev evs)
  from Cons.prems(1) obtain q where q: "step rc ds vc p ev = Some q"
    and r: "run rc ds vc q evs = Some p'"
    by (auto split: option.splits)
  from step_keeps_jobs [OF q Cons.prems(2)] have "jobs (service q) job_id \<noteq> None" .
  with Cons.IH [OF r] show ?case .
qed

text \<open>
  Claim C8. \<open>get_job_status\<close> raises exactly when the identifier is not in the registry, and
  what it raises is then \<^verbatim>\<open>ValueError("Job not found")\<close>; otherwise it returns the record the
  registry holds. For the identifier that \<open>create_summary_job\<close> returned it returns the pending
  record at once, and after any events that follow the creation it returns the record of the
  job as it then is.
\<close>

theorem get_job_status_found_iff:
  "(get_job_status st job_id = Inl e \<longleftrightarrow> jobs st job_id = None \<and> e = ValueError ''Job not found'') \<and>
   (\<forall>j. get_job_status st job_id = Inr j \<longleftrightarrow> jobs st job_id = Some j) \<and>
   get_job_status (fst (create_summary_job job_id now st)) (snd (create_summary_job job_id now st)) =
     Inr (pending_job now) \<and>
   (\<forall>p evs p'. run rc ds vc (p\<lparr>service := fst (create_summary_job job_id now (service p))\<rparr>) evs = Some p' \<longrightarrow>
      (\<exists>j. jobs (service p') job_id = Some j \<and> get_job_status (service p') job_id = Inr j))"
proof -
  have a: "get_job_status st job_id = Inl e \<longleftrightarrow> jobs st job_id = None \<and> e = ValueError ''Job not found''"
    by (auto simp: get_job_status_def split: option.splits)
  have b: "\<forall>j. get_job_status st job_id = Inr j \<longleftrightarrow> jobs st job_id = Some j"
    by (auto simp: get_job_status_def split: option.splits)
  have c: "get_job_status (fst (create_summary_job job_id now st)) (snd (create_summary_job job_id now st)) =
     Inr (pending_job now)"
    by (simp add: get_job_status_def create_summary_job_def pending_job_def)
  have d: "\<exists>j. jobs (service p') job_id = Some j \<and> get_job_status (service p') job_id = Inr j"
    if "run rc ds vc (p\<lparr>service := fst (create_summary_job job_id now (service p))\<rparr>) evs = Some p'"
    for p evs p'
  proof -
    have "jobs (service (p\<lparr>service := fst (create_summary_job job_id now (service p))\<rparr>)) job_id \<noteq> None"
      by (simp add: create_summary_job_def)
    from run_keeps_jobs [OF that this] show ?thesis
      by (auto simp: get_job_status_def)
  qed
  from a b c d show ?thesis by blast
qed

text \<open>An identifier never created, and the first job after an upload and the creation of a
  second job.\<close>

theorem get_job_status_found_iff_witness:
  "jobs (init_service :: (pl_value, (pl_value, string) summary) data_service) ''nonexistent-id'' = None \<and>
   get_job_status (init_service :: (pl_value, (pl_value, string) summary) data_service)
     ''nonexistent-id'' = Inl (ValueError ''Job not found'') \<and>
   run test_reader describe_count value_counts_first_seen created_process
     [Upload ''data.csv'', Create ''job-2'' ''09:05''] \<noteq> None \<and>
   get_job_status
     (service (the (run test_reader describe_count value_counts_first_seen created_process
                      [Upload ''data.csv'', Create ''job-2'' ''09:05''])))
     ''job-1'' = Inr (pending_job ''09:00'')"
proof -
  let ?ini = "init_service :: (pl_value, (pl_value, string) summary) data_service"
  let ?run = "run test_reader describe_count value_counts_first_seen created_process
                [Upload ''data.csv'', Create ''job-2'' ''09:05'']"
  note t = get_job_status_found_iff [of ?ini "''nonexistent-id''" "ValueError ''Job not found''"
      "''09:00''" test_reader describe_count value_counts_first_seen, THEN conjunct1]
  have n: "jobs ?ini ''nonexistent-id'' = None" by (simp add: init_service_def)
  from t n have a: "get_job_status ?ini ''nonexistent-id'' = Inl (ValueError ''Job not found'')"
    by simp
  have r: "?run \<noteq> None"
    by (simp add: created_process_def init_process_def init_service_def create_summary_job_def
        load_csv_async_def split: sum.splits)
  then obtain p' where p': "?run = Some p'" by blast
  note u = get_job_status_found_iff [of "service init_process" "''job-1''" "ValueError ''Job not found''"
      "''09:00''" test_reader describe_count value_counts_first_seen]
  from u p' obtain j where j: "jobs (service p') ''job-1'' = Some j"
    and g: "get_job_status (service p') ''job-1'' = Inr j"
    unfolding created_process_def by blast
  have "jobs (service (the ?run)) ''job-1'' = Some (pending_job ''09:00'')"
    by (simp add: created_process_def init_process_def init_service_def create_summary_job_def
        load_csv_async_def pending_job_def split: sum.splits)
  with j g p' have "get_job_status (service (the ?run)) ''job-1'' = Inr (pending_job ''09:00'')"
    by simp
  with n a r show ?thesis by simp
qed

section \<open>The lifecycle of a job\<close>

lemma step_Upload:
  "step rc ds vc p (Upload path) = Some p' \<Longrightarrow> changed p Unchanged p'"
  by (auto simp: changed_def load_csv_async_def split: sum.splits)

lemma step_Create:
  "step rc ds vc p (Create i now) = Some p' \<Longrightarrow>
   jobs (service p) i = None \<and> changed p (Added i (pending_job now)) p'"
  by (auto simp: changed_def create_summary_job_def pending_job_def split: if_splits)

lemma step_Begin:
  assumes "step rc ds vc p (Begin i now) = Some p'" and "jobs (service p) i = Some j"
  shows "tasks p i = Some NotStarted \<and>
         (changed p (Moved i (j\<lparr>status := Running\<rparr>) (Some Sleeping)) p' \<or>
          changed p (Moved i (j\<lparr>status := Failed, completed_at := Some now,
                                 error := Some ''No data loaded''\<rparr>) None) p')"
proof (cases "data (service p)")
  case None
  with assms show ?thesis
    by (auto simp: changed_def after_part_def begin_no_data split: if_splits)
next
  case (Some df)
  with assms show ?thesis
    by (auto simp: changed_def after_part_def begin_with_data split: if_splits)
qed

lemma step_Resume:
  assumes "step rc ds vc p (Resume i now) = Some p'" and "jobs (service p) i = Some j"
  shows "tasks p i = Some Sleeping \<and>
         ((\<exists>res. changed p (Moved i (j\<lparr>status := Completed, completed_at := Some now,
                                       result := Some res\<rparr>) None) p') \<or>
          (\<exists>e. changed p (Moved i (j\<lparr>status := Failed, completed_at := Some now,
                                     error := Some e\<rparr>) None) p'))"
proof (cases "generate_summaries ds vc (data (service p))")
  case (Inl e)
  with assms show ?thesis
    by (auto simp: changed_def after_part_def resume_failure split: if_splits)
next
  case (Inr res)
  with assms show ?thesis
    by (auto simp: changed_def after_part_def resume_success split: if_splits)
qed

lemma task_has_job:
  "task_inv p \<Longrightarrow> tasks p i = Some t \<Longrightarrow>
   \<exists>j. jobs (service p) i = Some j \<and> status j = (case t of NotStarted \<Rightarrow> Pending | Sleeping \<Rightarrow> Running)"
  unfolding task_inv_def
  by (drule spec [of _ i]) (cases t; cases "jobs (service p) i"; simp)

lemma terminal_no_task:
  assumes "task_inv p" and "jobs (service p) i = Some j" and "terminal (status j)"
  shows "tasks p i = None"
proof (cases "tasks p i")
  case None
  then show ?thesis .
next
  case (Some t)
  from task_has_job [OF assms(1) Some] assms(2,3) show ?thesis
    by (cases t) (auto simp: terminal_def)
qed

lemma inv_Unchanged: "process_inv p \<Longrightarrow> changed p Unchanged p' \<Longrightarrow> process_inv p'"
  by (simp add: process_inv_def task_inv_def changed_def)

lemma inv_Added:
  "process_inv p \<Longrightarrow> changed p (Added i (pending_job now)) p' \<Longrightarrow> process_inv p'"
  by (simp add: process_inv_def task_inv_def changed_def pending_job_def job_ok_def)

lemma inv_Moved:
  assumes "process_inv p" and "changed p (Moved i j t) p'" and "job_ok j"
    and "task_ok t (Some j)"
  shows "process_inv p'"
  using assms by (simp add: process_inv_def task_inv_def changed_def)

lemma process_inv_init: "process_inv init_process"
  by (simp add: process_inv_def task_inv_def init_process_def init_service_def)

lemma process_inv_step:
  assumes "process_inv p" and "step rc ds vc p ev = Some p'"
  shows "process_inv p'"
proof (cases ev)
  case (Upload path)
  with assms show ?thesis by (blast intro: inv_Unchanged dest: step_Upload)
next
  case (Create i now)
  with assms show ?thesis by (blast intro: inv_Added dest: step_Create)
next
  case (Begin i now)
  with assms(2) have t: "tasks p i = Some NotStarted" by (simp split: if_splits)
  from assms(1) have ti: "task_inv p" by (simp add: process_inv_def)
  from task_has_job [OF ti t] obtain j where j: "jobs (service p) i = Some j" "status j = Pending"
    by auto
  from assms(1) j have ok: "job_ok j" by (simp add: process_inv_def)
  from step_Begin [OF assms(2) [unfolded Begin] j(1)]
  consider "changed p (Moved i (j\<lparr>status := Running\<rparr>) (Some Sleeping)) p'"
    | "changed p (Moved i (j\<lparr>status := Failed, completed_at := Some now,
                                 error := Some ''No data loaded''\<rparr>) None) p'"
    by blast
  then show ?thesis
  proof cases
    case 1
    from assms(1) 1 show ?thesis
      by (rule inv_Moved) (use ok j in \<open>simp_all add: job_ok_def\<close>)
  next
    case 2
    from assms(1) 2 show ?thesis
      by (rule inv_Moved) (use ok j in \<open>simp_all add: job_ok_def terminal_def\<close>)
  qed
next
  case (Resume i now)
  with assms(2) have t: "tasks p i = Some Sleeping" by (simp split: if_splits)
  from assms(1) have ti: "task_inv p" by (simp add: process_inv_def)
  from task_has_job [OF ti t] obtain j where j: "jobs (service p) i = Some j" "status j = Running"
    by auto
  from assms(1) j have ok: "job_ok j" by (simp add: process_inv_def)
  from step_Resume [OF assms(2) [unfolded Resume] j(1)]
  consider res where "changed p (Moved i (j\<lparr>status := Completed, completed_at := Some now,
                                       result := Some res\<rparr>) None) p'"
    | e where "changed p (Moved i (j\<lparr>status := Failed, completed_at := Some now,
                                     error := Some e\<rparr>) None) p'"
    by blast
  then show ?thesis
  proof cases
    case 1
    from assms(1) 1 show ?thesis
      by (rule inv_Moved) (use ok j in \<open>simp_all add: job_ok_def terminal_def\<close>)
  next
    case 2
    from assms(1) 2 show ?thesis
      by (rule inv_Moved) (use ok j in \<open>simp_all add: job_ok_def terminal_def\<close>)
  qed
qed

lemma process_inv_run:
  "process_inv p \<Longrightarrow> run rc ds vc p evs = Some p' \<Longrightarrow> process_inv p'"
proof (induction evs arbitrary: p)
  case Nil
  then show ?case by simp
next
  case (Cons ev evs)
  from Cons.prems(2) obtain q where q: "step rc ds vc p ev = Some q"
    and r: "run rc ds vc q evs = Some p'"
    by (auto split: option.splits)
  from process_inv_step [OF Cons.prems(1) q] have "process_inv q" .
  from Cons.IH [OF this r] show ?case .
qed

lemma reachable_inv: "run rc ds vc init_process evs = Some p \<Longrightarrow> process_inv p"
  by (rule process_inv_run [OF process_inv_init])


lemma forward_tranclp: "forward s s' \<longleftrightarrow> lifecycle\<^sup>+\<^sup>+ s s'"
proof
  assume "forward s s'"
  then show "lifecycle\<^sup>+\<^sup>+ s s'"
    by (auto simp: forward_def intro: tranclp.intros)
next
  assume "lifecycle\<^sup>+\<^sup>+ s s'"
  then show "forward s s'"
  proof (induction rule: tranclp_induct)
    case (base y)
    then show ?case by (simp add: forward_def)
  next
    case (step y z)
    then show ?case
      by (cases s; cases y; cases z) (simp_all add: forward_def)
  qed
qed

lemma step_job:
  assumes "process_inv p" and "step rc ds vc p ev = Some p'" and "jobs (service p) i = Some j"
  shows "\<exists>j'. jobs (service p') i = Some j' \<and>
              (j' = j \<or> task_event i ev \<and> forward (status j) (status j'))"
proof (cases ev)
  case (Upload path)
  with assms(2) have "changed p Unchanged p'" by (blast dest: step_Upload)
  with assms(3) show ?thesis by (simp add: changed_def)
next
  case (Create k now)
  with assms(2) have "jobs (service p) k = None" "changed p (Added k (pending_job now)) p'"
    by (blast dest: step_Create)+
  with assms(3) show ?thesis by (auto simp: changed_def)
next
  case (Begin k now)
  show ?thesis
  proof (cases "k = i")
    case True
    from assms(2) Begin True have t: "tasks p i = Some NotStarted" by (simp split: if_splits)
    from assms(1) have "task_inv p" by (simp add: process_inv_def)
    from task_has_job [OF this t] assms(3) have s: "status j = Pending" by simp
    from step_Begin [OF assms(2) [unfolded Begin True] assms(3)] s Begin True show ?thesis
      by (auto simp: changed_def forward_def)
  next
    case False
    from assms(2) Begin have t: "tasks p k = Some NotStarted" by (simp split: if_splits)
    from assms(1) have "task_inv p" by (simp add: process_inv_def)
    from task_has_job [OF this t] obtain jk where jk: "jobs (service p) k = Some jk" by blast
    from step_Begin [OF assms(2) [unfolded Begin] jk] False assms(3) show ?thesis
      by (auto simp: changed_def)
  qed
next
  case (Resume k now)
  show ?thesis
  proof (cases "k = i")
    case True
    from assms(2) Resume True have t: "tasks p i = Some Sleeping" by (simp split: if_splits)
    from assms(1) have "task_inv p" by (simp add: process_inv_def)
    from task_has_job [OF this t] assms(3) have s: "status j = Running" by simp
    from step_Resume [OF assms(2) [unfolded Resume True] assms(3)] s Resume True show ?thesis
      by (auto simp: changed_def forward_def)
  next
    case False
    from assms(2) Resume have t: "tasks p k = Some Sleeping" by (simp split: if_splits)
    from assms(1) have "task_inv p" by (simp add: process_inv_def)
    from task_has_job [OF this t] obtain jk where jk: "jobs (service p) k = Some jk" by blast
    from step_Resume [OF assms(2) [unfolded Resume] jk] False assms(3) show ?thesis
      by (auto simp: changed_def)
  qed
qed

lemma task_event_needs_task:
  "step rc ds vc p ev = Some p' \<Longrightarrow> task_event i ev \<Longrightarrow> tasks p i \<noteq> None"
  by (cases ev) (auto split: if_splits)

lemma step_terminal:
  assumes "process_inv p" and "step rc ds vc p ev = Some p'" and "jobs (service p) i = Some j"
    and "terminal (status j)"
  shows "jobs (service p') i = Some j"
proof -
  from assms(1) have "task_inv p" by (simp add: process_inv_def)
  from terminal_no_task [OF this assms(3,4)] have "tasks p i = None" .
  with task_event_needs_task [OF assms(2)] have "\<not> task_event i ev" by blast
  with step_job [OF assms(1-3)] show ?thesis by blast
qed

lemma run_terminal:
  "process_inv p \<Longrightarrow> run rc ds vc p evs = Some p' \<Longrightarrow> jobs (service p) i = Some j \<Longrightarrow>
   terminal (status j) \<Longrightarrow> jobs (service p') i = Some j"
proof (induction evs arbitrary: p)
  case Nil
  then show ?case by simp
next
  case (Cons ev evs)
  from Cons.prems(2) obtain q where q: "step rc ds vc p ev = Some q"
    and r: "run rc ds vc q evs = Some p'"
    by (auto split: option.splits)
  have iq: "process_inv q" by (rule process_inv_step [OF Cons.prems(1) q])
  have jq: "jobs (service q) i = Some j"
    by (rule step_terminal [OF Cons.prems(1) q Cons.prems(3,4)])
  show ?case by (rule Cons.IH [OF iq r jq Cons.prems(4)])
qed

text \<open>
  Claim C5. In every state the process reaches, a job record that is pending or running has no
  completion time, no result and no error; a completed record has a result and no error; a
  failed record has an error and no result; so a record in a terminal state has exactly one of
  the two.
\<close>

theorem job_record_shape:
  assumes "run rc ds vc init_process evs = Some p" and "jobs (service p) job_id = Some j"
  shows "(status j = Pending \<or> status j = Running \<longrightarrow>
            completed_at j = None \<and> result j = None \<and> error j = None) \<and>
         (status j = Completed \<longrightarrow> result j \<noteq> None \<and> error j = None \<and> completed_at j \<noteq> None) \<and>
         (status j = Failed \<longrightarrow> error j \<noteq> None \<and> result j = None \<and> completed_at j \<noteq> None) \<and>
         (terminal (status j) \<longrightarrow> (result j = None) \<noteq> (error j = None))"
proof -
  from reachable_inv [OF assms(1)] assms(2) have "job_ok j" by (simp add: process_inv_def)
  then show ?thesis by (cases "status j") (simp_all add: job_ok_def terminal_def)
qed

text \<open>
  Claim C6. In every state the process reaches: a job is created pending; an event leaves the
  record of a job as it is unless it is a part of the task of that very job, and then the
  status has moved forward along the lifecycle (the first part of a task with no frame loaded
  writes running and then failed with no suspension between the two writes); and the record of
  a job in a terminal state is the same after any further events.
\<close>

theorem job_lifecycle:
  assumes "run rc ds vc init_process evs = Some p"
  shows "(\<forall>i now p'. step rc ds vc p (Create i now) = Some p' \<longrightarrow>
            jobs (service p') i = Some (pending_job now)) \<and>
         (\<forall>ev p' i j. step rc ds vc p ev = Some p' \<and> jobs (service p) i = Some j \<longrightarrow>
            (\<exists>j'. jobs (service p') i = Some j' \<and>
                  (j' = j \<or> task_event i ev \<and> forward (status j) (status j')))) \<and>
         (\<forall>evs' p' i j. run rc ds vc p evs' = Some p' \<and> jobs (service p) i = Some j \<and>
              terminal (status j) \<longrightarrow> jobs (service p') i = Some j)"
proof -
  note inv = reachable_inv [OF assms]
  have a: "\<forall>i now p'. step rc ds vc p (Create i now) = Some p' \<longrightarrow>
            jobs (service p') i = Some (pending_job now)"
    by (auto simp: create_summary_job_def pending_job_def split: if_splits)
  have b: "\<forall>ev p' i j. step rc ds vc p ev = Some p' \<and> jobs (service p) i = Some j \<longrightarrow>
            (\<exists>j'. jobs (service p') i = Some j' \<and>
                  (j' = j \<or> task_event i ev \<and> forward (status j) (status j')))"
    using step_job [OF inv] by blast
  have c: "\<forall>evs' p' i j. run rc ds vc p evs' = Some p' \<and> jobs (service p) i = Some j \<and>
              terminal (status j) \<longrightarrow> jobs (service p') i = Some j"
    using run_terminal [OF inv] by blast
  from a b c show ?thesis by blast
qed



subsection \<open>A run of the process\<close>

lemma test_trace_runs:
  "run test_reader describe_count value_counts_first_seen init_process test_trace \<noteq> None"
  by code_simp

lemma test_trace_status:
  "map_option status (jobs (service test_process) ''job-1'') = Some Completed"
  by code_simp

lemma later_trace_runs:
  "run test_reader describe_count value_counts_first_seen test_process later_trace \<noteq> None"
  by code_simp

text \<open>The job of the run is completed, with a result and without an error.\<close>

theorem job_record_shape_witness:
  "run test_reader describe_count value_counts_first_seen init_process test_trace = Some test_process \<and>
   map_option status (jobs (service test_process) ''job-1'') = Some Completed \<and>
   result (the (jobs (service test_process) ''job-1'')) \<noteq> None \<and>
   error (the (jobs (service test_process) ''job-1'')) = None \<and>
   completed_at (the (jobs (service test_process) ''job-1'')) \<noteq> None"
proof -
  have r: "run test_reader describe_count value_counts_first_seen init_process test_trace =
             Some test_process"
    using test_trace_runs by (auto simp: test_process_def)
  from test_trace_status obtain j where j: "jobs (service test_process) ''job-1'' = Some j"
    and s: "status j = Completed"
    by auto
  from job_record_shape [OF r j] s
  have "result j \<noteq> None \<and> error j = None \<and> completed_at j \<noteq> None" by simp
  with r j s show ?thesis by simp
qed

text \<open>The completed job stays as it is through a second upload and a second job.\<close>

theorem job_lifecycle_witness:
  "run test_reader describe_count value_counts_first_seen init_process test_trace = Some test_process \<and>
   map_option status (jobs (service test_process) ''job-1'') = Some Completed \<and>
   run test_reader describe_count value_counts_first_seen test_process later_trace \<noteq> None \<and>
   jobs (service (the (run test_reader describe_count value_counts_first_seen test_process
                         later_trace))) ''job-1'' =
     jobs (service test_process) ''job-1''"
proof -
  have r: "run test_reader describe_count value_counts_first_seen init_process test_trace =
             Some test_process"
    using test_trace_runs by (auto simp: test_process_def)
  from test_trace_status obtain j where j: "jobs (service test_process) ''job-1'' = Some j"
    and s: "status j = Completed"
    by auto
  from later_trace_runs obtain p' where
    p': "run test_reader describe_count value_counts_first_seen test_process later_trace = Some p'"
    by auto
  from s have t: "terminal (status j)" by (simp add: terminal_def)
  from job_lifecycle [OF r] p' j t have "jobs (service p') ''job-1'' = Some j" by blast
  with r j p' test_trace_status show ?thesis by simp
qed

section \<open>Distributions\<close>

lemma loop_map_of:
  "map_of (distributions_loop vc df cols acc) c =
     (if c \<in> set cols then Some (distribution_of vc df c) else map_of acc c)"
  by (induction cols arbitrary: acc) (auto simp: distribution_of_def update_conv')

lemma loop_keys:
  "distinct cols \<Longrightarrow> set cols \<inter> set (map fst acc) = {} \<Longrightarrow>
   map fst (distributions_loop vc df cols acc) = map fst acc @ cols"
proof (induction cols arbitrary: acc)
  case Nil
  then show ?case by simp
next
  case (Cons c cols)
  let ?acc = "AList.update c (distribution_of vc df c) acc"
  from Cons.prems have k: "map fst ?acc = map fst acc @ [c]"
    by (simp add: update_keys)
  from Cons.prems have d: "distinct cols" by simp
  from Cons.prems have e: "set cols \<inter> set (map fst ?acc) = {}"
    unfolding k by auto
  from Cons.IH [OF d e] have "map fst (distributions_loop vc df cols ?acc) = map fst ?acc @ cols" .
  then show ?case
    unfolding k by (simp add: distribution_of_def)
qed

lemma distributions_keys:
  "distinct (columns df) \<Longrightarrow> map fst (get_distributions vc df) = take 5 (columns df)"
  by (simp add: get_distributions_def loop_keys)

lemma distributions_entry:
  "col \<in> set (take 5 (columns df)) \<Longrightarrow>
   map_of (get_distributions vc df) col = Some (distribution_of vc df col)"
  by (simp add: get_distributions_def loop_map_of)

lemma counts_length:
  assumes "distinct (map fst counts)" and "set (map fst counts) = set xs"
  shows "length counts = length (remdups xs)"
proof -
  have "length counts = card (set (map fst counts))"
    using assms(1) by (metis distinct_card length_map)
  also have "\<dots> = length (remdups xs)"
    by (metis assms(2) length_remdups_card_conv)
  finally show ?thesis .
qed

lemma few_values_top_ten:
  assumes "distinct (map fst counts)" and "set (map fst counts) = set xs"
    and "\<forall>(v, n) \<in> set counts. n = count_list xs v" and "length counts \<le> 10"
  shows "top_ten xs (take 10 counts)"
proof -
  have t: "take 10 counts = counts" using assms(4) by simp
  have l: "length counts = min 10 (length (remdups xs))"
    using counts_length [OF assms(1,2)] assms(4) by simp
  have a: "list_all (\<lambda>(v, n). v \<in> set xs \<and> n = count_list xs v) counts"
    using assms(2,3) by (force simp: list_all_iff)
  have b: "list_all (\<lambda>w. w \<in> set (map fst counts) \<or> list_all (\<lambda>(v, n). count_list xs w \<le> n) counts)
             (remdups xs)"
    using assms(2) by (simp add: list_all_iff)
  show ?thesis
    unfolding top_ten_def t using l assms(1) a b by simp
qed

lemma value_counts_first_seen_ok: "value_counts_ok value_counts_first_seen"
  by (auto simp: value_counts_ok_def value_counts_first_seen_def comp_def image_image)

text \<open>
  The entries of the distributions, for a frame with unique column names: one entry for each of
  the first five columns (all columns if there are fewer), in schema order. When \<open>value_counts\<close>
  raises for a column, the entry of that column is the error marker, and the other entries are
  as they would be otherwise. When it returns, the entry is the first ten rows of its table: at
  most ten distinct values of the column, each with the number of its occurrences; for a column
  of at most ten distinct values these are its ten most frequent values.
\<close>

lemma distributions_entries:
  assumes "distinct (columns df)" and "value_counts_ok vc"
  shows "map fst (get_distributions vc df) = take 5 (columns df) \<and>
         (\<forall>col \<in> set (take 5 (columns df)).
            (\<forall>e. vc (column_values df col) = Inl e \<longrightarrow>
               map_of (get_distributions vc df) col = Some DistributionError) \<and>
            (\<forall>counts. vc (column_values df col) = Inr counts \<longrightarrow>
               map_of (get_distributions vc df) col = Some (ValueCounts (take 10 counts)) \<and>
               length (take 10 counts) \<le> 10 \<and>
               distinct (map fst (take 10 counts)) \<and>
               (\<forall>(v, n) \<in> set (take 10 counts).
                  v \<in> set (column_values df col) \<and> n = count_list (column_values df col) v) \<and>
               (length (remdups (column_values df col)) \<le> 10 \<longrightarrow>
                  top_ten (column_values df col) (take 10 counts))))"
proof -
  have keys: "map fst (get_distributions vc df) = take 5 (columns df)"
    by (rule distributions_keys [OF assms(1)])
  have failed: "map_of (get_distributions vc df) col = Some DistributionError"
    if "col \<in> set (take 5 (columns df))" and "vc (column_values df col) = Inl e" for col e
    using that by (simp add: distributions_entry distribution_of_def)
  have counted:
    "map_of (get_distributions vc df) col = Some (ValueCounts (take 10 counts)) \<and>
     length (take 10 counts) \<le> 10 \<and>
     distinct (map fst (take 10 counts)) \<and>
     (\<forall>(v, n) \<in> set (take 10 counts).
        v \<in> set (column_values df col) \<and> n = count_list (column_values df col) v) \<and>
     (length (remdups (column_values df col)) \<le> 10 \<longrightarrow>
        top_ten (column_values df col) (take 10 counts))"
    if c: "col \<in> set (take 5 (columns df))" and v: "vc (column_values df col) = Inr counts"
    for col counts
  proof -
    let ?xs = "column_values df col"
    from assms(2) v have d: "distinct (map fst counts)" and s: "set (map fst counts) = set ?xs"
      and n: "\<forall>(v, n) \<in> set counts. n = count_list ?xs v"
      unfolding value_counts_ok_def by blast+
    from c v have 1: "map_of (get_distributions vc df) col = Some (ValueCounts (take 10 counts))"
      by (simp add: distributions_entry distribution_of_def)
    have 2: "length (take 10 counts) \<le> 10" by simp
    from d have 3: "distinct (map fst (take 10 counts))"
      by (simp add: take_map [symmetric])
    have 4: "\<forall>(v, n) \<in> set (take 10 counts). v \<in> set ?xs \<and> n = count_list ?xs v"
    proof (clarify, rule conjI)
      fix a b assume "(a, b) \<in> set (take 10 counts)"
      then have m: "(a, b) \<in> set counts" by (rule in_set_takeD)
      then have "a \<in> set (map fst counts)" by force
      with s show "a \<in> set ?xs" by simp
      from n m show "b = count_list ?xs a" by blast
    qed
    have 5: "length (remdups ?xs) \<le> 10 \<longrightarrow> top_ten ?xs (take 10 counts)"
    proof
      assume "length (remdups ?xs) \<le> 10"
      with counts_length [OF d s] have "length counts \<le> 10" by simp
      from few_values_top_ten [OF d s n this] show "top_ten ?xs (take 10 counts)" .
    qed
    from 1 2 3 4 5 show ?thesis by blast
  qed
  from keys failed counted show ?thesis by blast
qed

subsection \<open>A column of more than ten distinct values\<close>

lemma codes_column: "column_values codes_frame ''code'' = codes"
  by code_simp

lemma codes_counts:
  "list_all (\<lambda>v. count_list codes v = (if v = Some (IntV 11) then 2 else 1)) codes"
  by code_simp

lemma codes_distinct_values: "length (remdups codes) = 11"
  by code_simp

lemma codes_distributions:
  "get_distributions vc codes_frame = [(''code'', distribution_of vc codes_frame ''code'')]"
proof -
  have "take 5 (columns codes_frame) = [''code'']" by code_simp
  then show ?thesis by (simp add: get_distributions_def distribution_of_def)
qed

text \<open>
  Claim C3. The claim: each entry of the distributions is the ten most frequent values of its
  column. The code: \<open>_get_distributions\<close> takes \<open>head(10)\<close> of the table of \<open>value_counts()\<close>, called
  without \<open>sort\<close>, and does not order it by count. On the frame whose column holds 1 to 10 once
  and 11 twice, whatever table of eleven rows \<open>value_counts\<close> returns, the entry is its first ten
  rows, and these are the ten most frequent values exactly when 11 is among them.
\<close>

theorem distributions_take_unsorted_rows:
  assumes "value_counts_ok vc" and "vc (column_values codes_frame ''code'') = Inr counts"
  shows "get_distributions vc codes_frame = [(''code'', ValueCounts (take 10 counts))] \<and>
         length counts = 11 \<and>
         (top_ten (column_values codes_frame ''code'') (take 10 counts) \<longleftrightarrow>
            Some (IntV 11) \<in> set (map fst (take 10 counts)))"
proof -
  let ?entry = "take 10 counts"
  from assms have d: "distinct (map fst counts)" and s: "set (map fst counts) = set codes"
    and n: "\<forall>(v, n) \<in> set counts. n = count_list codes v"
    unfolding value_counts_ok_def codes_column by blast+
  have cnt: "count_list codes v = (if v = Some (IntV 11) then 2 else 1)" if "v \<in> set codes" for v
    using codes_counts that by (simp add: list_all_iff)
  have len: "length counts = 11"
    using counts_length [OF d s] codes_distinct_values by simp
  have a: "get_distributions vc codes_frame = [(''code'', ValueCounts ?entry)]"
    using assms(2) by (simp add: codes_distributions distribution_of_def)
  have sub: "set ?entry \<subseteq> set counts" by (rule set_take_subset)
  have ent: "v \<in> set codes \<and> k = count_list codes v" if "(v, k) \<in> set ?entry" for v k
  proof -
    from that sub have m: "(v, k) \<in> set counts" by blast
    then have "v \<in> set (map fst counts)" by force
    with s n m show ?thesis by blast
  qed
  have l10: "length ?entry = min 10 (length (remdups codes))"
    using len codes_distinct_values by simp
  have de: "distinct (map fst ?entry)"
    using d by (simp add: take_map [symmetric])
  have la: "list_all (\<lambda>(v, k). v \<in> set codes \<and> k = count_list codes v) ?entry"
    using ent by (auto simp: list_all_iff)
  have iff: "top_ten codes ?entry \<longleftrightarrow> Some (IntV 11) \<in> set (map fst ?entry)"
  proof
    assume t: "top_ten codes ?entry"
    show "Some (IntV 11) \<in> set (map fst ?entry)"
    proof (rule ccontr)
      assume out: "Some (IntV 11) \<notin> set (map fst ?entry)"
      have in11: "Some (IntV 11) \<in> set (remdups codes)" by code_simp
      from t have "list_all (\<lambda>w. w \<in> set (map fst ?entry) \<or>
                      list_all (\<lambda>(v, k). count_list codes w \<le> k) ?entry) (remdups codes)"
        by (simp add: top_ten_def)
      with in11 out have all: "list_all (\<lambda>(v, k). count_list codes (Some (IntV 11)) \<le> k) ?entry"
        by (auto simp: list_all_iff)
      from l10 codes_distinct_values have "?entry \<noteq> []" by auto
      then obtain v k where vk: "(v, k) \<in> set ?entry"
        by (cases ?entry) auto
      from ent [OF vk] have vin: "v \<in> set codes" and keq: "k = count_list codes v" by simp_all
      from vk out have "v \<noteq> Some (IntV 11)" by force
      with cnt [OF vin] keq have "k = 1" by simp
      moreover from all vk have "count_list codes (Some (IntV 11)) \<le> k"
        by (auto simp: list_all_iff)
      moreover have "count_list codes (Some (IntV 11)) = 2"
        using cnt [of "Some (IntV 11)"] in11 by simp
      ultimately show False by simp
    qed
  next
    assume i: "Some (IntV 11) \<in> set (map fst ?entry)"
    have "w \<in> set (map fst ?entry) \<or> list_all (\<lambda>(v, k). count_list codes w \<le> k) ?entry"
      if w: "w \<in> set codes" for w
    proof (cases "w \<in> set (map fst ?entry)")
      case True
      then show ?thesis by simp
    next
      case False
      with i have "w \<noteq> Some (IntV 11)" by auto
      with cnt [OF w] have w1: "count_list codes w = 1" by simp
      have "1 \<le> k" if "(v, k) \<in> set ?entry" for v k
        using ent [OF that] cnt [of v] by (auto split: if_splits)
      with w1 show ?thesis by (auto simp: list_all_iff)
    qed
    then have "list_all (\<lambda>w. w \<in> set (map fst ?entry) \<or>
                  list_all (\<lambda>(v, k). count_list codes w \<le> k) ?entry) (remdups codes)"
      by (simp add: list_all_iff)
    with l10 de la show "top_ten codes ?entry" by (simp add: top_ten_def)
  qed
  from a len iff show ?thesis by (simp add: codes_column)
qed

text \<open>With the table in the order of first occurrence the entry is 1 to 10, each counted once;
  11, the most frequent value, is left out.\<close>

theorem distributions_take_unsorted_rows_witness:
  "value_counts_ok value_counts_first_seen \<and>
   value_counts_first_seen (column_values codes_frame ''code'') =
     Inr (ten_codes @ [(Some (IntV 11), 2)]) \<and>
   get_distributions value_counts_first_seen codes_frame = [(''code'', ValueCounts ten_codes)] \<and>
   Some (IntV 11) \<notin> set (map fst ten_codes) \<and>
   \<not> top_ten (column_values codes_frame ''code'') ten_codes"
proof -
  have v: "value_counts_first_seen (column_values codes_frame ''code'') =
             Inr (ten_codes @ [(Some (IntV 11), 2)])"
    by code_simp
  have t: "take 10 (ten_codes @ [(Some (IntV 11), 2)]) = ten_codes" by code_simp
  have o: "Some (IntV 11) \<notin> set (map fst ten_codes)" by code_simp
  note r = distributions_take_unsorted_rows [OF value_counts_first_seen_ok v, unfolded t]
  from r o
  have "get_distributions value_counts_first_seen codes_frame = [(''code'', ValueCounts ten_codes)]"
    and "\<not> top_ten (column_values codes_frame ''code'') ten_codes"
    by blast+
  with value_counts_first_seen_ok v o show ?thesis by simp
qed


end
